theory Spec2Isabelle
  imports Complex_Main "HOL-Library.List_Lexorder" "HOL-Library.Sublist" "HOL-Library.Multiset"
begin

section \<open>Text\<close>

text \<open>
  A Python \<open>str\<close> is a sequence of Unicode code points, so a string is a list of
  natural numbers here. \<open>py_str\<close> embeds an ASCII literal. Python compares strings
  lexicographically by code point, which is the order of \<open>List_Lexorder\<close>; the test
  \<open>needle in hay\<close> is \<open>sublist needle hay\<close>.
\<close>

type_synonym ustr = "nat list"

definition py_str :: "string \<Rightarrow> ustr" where
  "py_str s = map of_char s"

text \<open>
  \<open>str.lower\<close>. The ASCII capitals go to their small letters; U+0130 goes to
  \<open>i\<close> followed by U+0307 and the Kelvin sign U+212A to \<open>k\<close>. These are the only
  code points whose lower-case form holds an ASCII character (Unicode 14, as shipped
  with CPython 3.11); every other code point goes to code points beyond ASCII and is
  left as it is here, which no test for an ASCII needle can observe.
\<close>

definition lower_char :: "nat \<Rightarrow> ustr" where
  "lower_char c =
     (if 65 \<le> c \<and> c \<le> 90 then [c + 32]
      else if c = 304 then [105, 775]
      else if c = 8490 then [107]
      else [c])"

definition lower :: "ustr \<Rightarrow> ustr" where
  "lower s = concat (map lower_char s)"

section \<open>Character classes\<close>

text \<open>
  The classes of Python's \<open>re\<close> on \<open>str\<close> patterns. \<open>\s\<close> and \<open>str.strip\<close> use the
  Unicode white space; \<open>\d\<close> and \<open>int\<close> use the Unicode decimal digits, which come in
  runs of ten from the zeros listed in \<open>nd_zeros\<close> (Unicode 14); \<open>.\<close> is every code point but
  the line feed.
\<close>

definition is_space :: "nat \<Rightarrow> bool" where
  "is_space c =
     ((9 \<le> c \<and> c \<le> 13) \<or> (28 \<le> c \<and> c \<le> 32) \<or> c = 133 \<or> c = 160 \<or> c = 5760 \<or>
      (8192 \<le> c \<and> c \<le> 8202) \<or> c = 8232 \<or> c = 8233 \<or> c = 8239 \<or> c = 8287 \<or> c = 12288)"

definition nd_zeros :: "nat list" where
  "nd_zeros =
     [1632, 1776, 1984, 2406, 2534, 2662, 2790, 2918, 3046, 3174, 3302, 3430, 3558,
      3664, 3792, 3872, 4160, 4240, 6112, 6160, 6470, 6608, 6784, 6800, 6992, 7088, 7232,
      7248, 42528, 43216, 43264, 43472, 43504, 43600, 44016, 65296, 66720, 68912, 69734,
      69872, 69942, 70096, 70384, 70736, 70864, 71248, 71360, 71472, 71904, 72016, 72784,
      73040, 73120, 92768, 92864, 93008, 120782, 120792, 120802, 120812, 120822, 123200,
      123632, 125264, 130032]"

definition digit_value :: "nat \<Rightarrow> nat option" where
  "digit_value c =
     (if c < 128 then (if 48 \<le> c \<and> c \<le> 57 then Some (c - 48) else None)
      else case find (\<lambda>z. z \<le> c \<and> c < z + 10) nd_zeros of
             None \<Rightarrow> None
           | Some z \<Rightarrow> Some (c - z))"

definition is_digit :: "nat \<Rightarrow> bool" where
  "is_digit c = (digit_value c \<noteq> None)"

definition ascii_digit :: "nat \<Rightarrow> bool" where
  "ascii_digit c = (48 \<le> c \<and> c \<le> 57)"

definition ascii_letter :: "nat \<Rightarrow> bool" where
  "ascii_letter c = ((65 \<le> c \<and> c \<le> 90) \<or> (97 \<le> c \<and> c \<le> 122))"

definition any_char :: "nat \<Rightarrow> bool" where
  "any_char c = (c \<noteq> 10)"

definition one_of :: "string \<Rightarrow> nat \<Rightarrow> bool" where
  "one_of cs c = (c \<in> set (py_str cs))"

definition strip :: "ustr \<Rightarrow> ustr" where
  "strip s = rev (dropWhile is_space (rev (dropWhile is_space s)))"

section \<open>Regular expressions\<close>

text \<open>
  The fragment of \<open>re\<close> the program uses: literals, a character class repeated between a
  lower and an optional upper bound, greedily or lazily, sequence, alternation, an optional
  part, a numbered group and \<open>$\<close>.
\<close>

datatype re =
    Lit ustr
  | Rep bool "nat \<Rightarrow> bool" nat "nat option"
  | Seq re re
  | Alt re re
  | Opt re
  | Grp nat re
  | Eol

abbreviation One :: "(nat \<Rightarrow> bool) \<Rightarrow> re" where
  "One cls \<equiv> Rep True cls 1 (Some 1)"

fun seqs :: "re list \<Rightarrow> re" where
  "seqs [] = Lit []"
| "seqs [r] = r"
| "seqs (r # rs) = Seq r (seqs rs)"

fun alts :: "re list \<Rightarrow> re" where
  "alts [] = Rep True (\<lambda>c. False) 1 (Some 1)"
| "alts [r] = r"
| "alts (r # rs) = Alt r (alts rs)"

text \<open>
  A state of the matcher is the rest of the subject that is still to be read and the texts
  of the groups closed so far, the latest first. \<open>run r st\<close> lists every state in which
  \<open>r\<close> can end when started in \<open>st\<close>, in the order in which the backtracking matcher
  tries them: a greedy repetition from the longest to the shortest, a lazy one from the
  shortest to the longest, the left branch of an alternation before the right one, an
  optional part taken before it is skipped. The matcher answers with the first state of the
  list. \<open>$\<close> holds at the end of the subject and before a line feed that ends it.
\<close>

type_synonym groups = "(nat \<times> ustr) list"
type_synonym mstate = "ustr \<times> groups"

fun run :: "re \<Rightarrow> mstate \<Rightarrow> mstate list" where
  "run (Lit w) (u, g) = (if prefix w u then [(drop (length w) u, g)] else [])"
| "run (Rep greedy cls lo hi) (u, g) =
     (let n = length (takeWhile cls u);
          m = (case hi of None \<Rightarrow> n | Some h \<Rightarrow> min h n);
          counts = (if greedy then rev [lo..<Suc m] else [lo..<Suc m])
      in map (\<lambda>k. (drop k u, g)) counts)"
| "run (Seq r1 r2) st = concat (map (run r2) (run r1 st))"
| "run (Alt r1 r2) st = run r1 st @ run r2 st"
| "run (Opt r) st = run r st @ [st]"
| "run (Grp n r) (u, g) =
     map (\<lambda>(u', g'). (u', (n, take (length u - length u') u) # g')) (run r (u, g))"
| "run Eol (u, g) = (if u = [] \<or> u = [10] then [(u, g)] else [])"

text \<open>
  \<open>re.search\<close> tries the start positions from left to right, the end of the subject
  included, and answers with the groups of the first match. \<open>group\<close> is the text of a
  group, \<open>None\<close> for a group that took no part in the match.
\<close>

fun re_search :: "re \<Rightarrow> ustr \<Rightarrow> groups option" where
  "re_search r [] = (case run r ([], []) of [] \<Rightarrow> None | (u, g) # _ \<Rightarrow> Some g)"
| "re_search r (c # s) =
     (case run r (c # s, []) of [] \<Rightarrow> re_search r s | (u, g) # _ \<Rightarrow> Some g)"

definition group :: "groups \<Rightarrow> nat \<Rightarrow> ustr option" where
  "group g k = map_of g k"

text \<open>The four patterns of \<open>parse_html_content\<close>, in the order of the source.\<close>

definition amount_re :: re where
  "amount_re =
     seqs [Lit [8377], Rep True is_space 0 None,
           Grp 1 (Seq (Rep True (\<lambda>c. ascii_digit c \<or> one_of '','' c) 1 None)
                      (Opt (Seq (Lit (py_str ''.'')) (Rep True ascii_digit 1 None))))]"

definition recipient_re :: re where
  "recipient_re =
     seqs [Lit (py_str ''to''), Rep True is_space 1 None,
           Grp 1 (Rep False any_char 1 None),
           Alt (Seq (Rep True is_space 1 None) (Lit (py_str ''using'')))
               (Seq (Rep True is_space 1 None) (Lit (py_str ''on'')))]"

definition date_re :: re where
  "date_re =
     seqs [Grp 1 (Rep True is_digit 1 (Some 2)), Rep True is_space 1 None,
           Grp 2 (Rep True ascii_letter 3 (Some 3)), Rep True is_space 1 None,
           Grp 3 (Rep True is_digit 4 (Some 4))]"

definition method_char :: "nat \<Rightarrow> bool" where
  "method_char c = (ascii_letter c \<or> ascii_digit c \<or> one_of '' -&()/.'' c)"

definition method_re :: re where
  "method_re =
     seqs [Lit (py_str ''using''), Rep True is_space 1 None,
           Grp 1 (Rep False method_char 1 None),
           Alt (Seq (Rep True is_space 1 None) (Rep True (one_of ''Xx'') 1 None))
               (Seq (Rep True is_space 0 None) Eol)]"

section \<open>Transaction records\<close>

text \<open>
  The dictionary appended by \<open>parse_html_content\<close>. The field \<open>id\<close> is called
  \<open>tid\<close>. An amount is a Python float; it is modelled by the rational number the decimal
  text denotes, so rounding to the nearest double is not part of the model.
\<close>

record transaction =
  amount :: rat
  recipient :: ustr
  date :: ustr
  payment_method :: ustr
  tid :: ustr

section \<open>Numbers and dates\<close>

datatype py_error = ValueError | AttributeError | TypeError

text \<open>
  \<open>float\<close> on a text of ASCII digits and full stops, which is all that is left of the amount
  group once the commas are removed (\<open>float_argument_chars\<close> below): Python accepts such a
  text when it has at most one full stop and at least one digit, and raises \<open>ValueError\<close>
  otherwise. Texts with other characters do not reach the call and are answered
  \<open>ValueError\<close> here.
\<close>

definition digits_value :: "ustr \<Rightarrow> nat" where
  "digits_value ds = fold (\<lambda>c n. 10 * n + (c - 48)) ds 0"

definition py_float :: "ustr \<Rightarrow> py_error + rat" where
  "py_float s =
     (let ip = takeWhile ascii_digit s in
      case dropWhile ascii_digit s of
        [] \<Rightarrow> if ip = [] then Inl ValueError else Inr (of_nat (digits_value ip))
      | c # fp \<Rightarrow>
          if c = 46 \<and> list_all ascii_digit fp \<and> (ip \<noteq> [] \<or> fp \<noteq> [])
          then Inr (of_nat (digits_value ip) + of_nat (digits_value fp) / 10 ^ length fp)
          else Inl ValueError)"

text \<open>
  \<open>int\<close> on the text of a \<open>%d\<close> or \<open>%Y\<close> group: white space around it is dropped and
  every Unicode decimal digit counts with its value.
\<close>

definition py_int :: "ustr \<Rightarrow> py_error + nat" where
  "py_int s =
     (let t = strip s in
      if t \<noteq> [] \<and> list_all is_digit t
      then Inr (fold (\<lambda>c n. 10 * n + the (digit_value c)) t 0)
      else Inl ValueError)"

fun decimal :: "nat \<Rightarrow> ustr" where
  "decimal n = (if n < 10 then [48 + n] else decimal (n div 10) @ [48 + n mod 10])"

declare decimal.simps [simp del]

definition zfill :: "nat \<Rightarrow> ustr \<Rightarrow> ustr" where
  "zfill w s = replicate (w - length s) 48 @ s"

text \<open>
  A \<open>datetime\<close> of this program never carries a time of day: it is a year, a month and a
  day. The constructor accepts the days of the proleptic Gregorian calendar from year 1 to
  year 9999.
\<close>

type_synonym ymd = "nat \<times> nat \<times> nat"

definition is_leap :: "nat \<Rightarrow> bool" where
  "is_leap y = (y mod 4 = 0 \<and> (y mod 100 \<noteq> 0 \<or> y mod 400 = 0))"

definition days_in_month :: "nat \<Rightarrow> nat \<Rightarrow> nat" where
  "days_in_month y m =
     (if m = 2 then (if is_leap y then 29 else 28)
      else if m = 4 \<or> m = 6 \<or> m = 9 \<or> m = 11 then 30
      else 31)"

definition valid_date :: "ymd \<Rightarrow> bool" where
  "valid_date d =
     (case d of (y, m, dd) \<Rightarrow>
        1 \<le> y \<and> y \<le> 9999 \<and> 1 \<le> m \<and> m \<le> 12 \<and> 1 \<le> dd \<and> dd \<le> days_in_month y m)"

text \<open>
  \<open>datetime.strptime(data_string, "%d %b %Y")\<close>. CPython turns the format into the
  pattern

  \<^verbatim>\<open>(?P<d>3[0-1]|[1-2]\d|0[1-9]|[1-9]| [1-9])\s+(?P<b>jan|feb|...|dec)\s+(?P<Y>\d\d\d\d)\<close>

  matched at the start of the text without regard to case. The text must be used up. The
  month is the place of the lower-cased \<open>b\<close> in the month names of the C locale, and the
  date constructor checks the day against the month. Every failure is a \<open>ValueError\<close>.
  The groups \<open>d\<close>, \<open>b\<close> and \<open>Y\<close> are numbered 1, 2 and 3. A month name is matched
  letter by letter against its small and its capital ASCII letter: a letter beyond ASCII
  that the library also lets through is then not found among the month names, which is a
  \<open>ValueError\<close> as well.
\<close>

definition a_month :: "ustr list" where
  "a_month = map py_str [''jan'', ''feb'', ''mar'', ''apr'', ''may'', ''jun'',
                         ''jul'', ''aug'', ''sep'', ''oct'', ''nov'', ''dec'']"

definition ignore_case :: "ustr \<Rightarrow> re" where
  "ignore_case w = seqs (map (\<lambda>l. One (\<lambda>c. c = l \<or> c + 32 = l)) w)"

definition strptime_re :: re where
  "strptime_re =
     seqs [Grp 1 (alts [Seq (Lit (py_str ''3'')) (One (one_of ''01'')),
                         Seq (One (one_of ''12'')) (One is_digit),
                         Seq (Lit (py_str ''0'')) (One (one_of ''123456789'')),
                         One (one_of ''123456789''),
                         Seq (Lit (py_str '' '')) (One (one_of ''123456789''))]),
           Rep True is_space 1 None,
           Grp 2 (alts (map ignore_case a_month)),
           Rep True is_space 1 None,
           Grp 3 (seqs [One is_digit, One is_digit, One is_digit, One is_digit])]"

fun index_of :: "'a \<Rightarrow> 'a list \<Rightarrow> nat option" where
  "index_of x [] = None"
| "index_of x (y # ys) = (if x = y then Some 0 else map_option Suc (index_of x ys))"

definition strptime :: "ustr \<Rightarrow> py_error + ymd" where
  "strptime data_string =
     (case run strptime_re (data_string, []) of
        [] \<Rightarrow> Inl ValueError
      | (rest, found) # _ \<Rightarrow>
          if rest \<noteq> [] then Inl ValueError
          else
            case (group found 1, group found 2, group found 3) of
              (Some d, Some b, Some Y) \<Rightarrow>
                (case (py_int Y, index_of (lower b) a_month, py_int d) of
                   (Inr year, Some month, Inr day) \<Rightarrow>
                     if valid_date (year, Suc month, day) then Inr (year, Suc month, day)
                     else Inl ValueError
                 | _ \<Rightarrow> Inl ValueError)
            | _ \<Rightarrow> Inl ValueError)"

text \<open>
  \<open>date_obj.strftime("%Y-%m-%d")\<close>. The month and the day are always two digits. The year
  is printed by the C library: glibc prints it without padding, so CPython 3.11 on Linux
  answers \<open>999-11-15\<close>, and other platforms pad it to four digits. The printer of the
  year is therefore a parameter, with these two instances.
\<close>

definition year_plain :: "nat \<Rightarrow> ustr" where
  "year_plain y = decimal y"

definition year_padded :: "nat \<Rightarrow> ustr" where
  "year_padded y = zfill 4 (decimal y)"

definition strftime :: "(nat \<Rightarrow> ustr) \<Rightarrow> ymd \<Rightarrow> ustr" where
  "strftime year_text d =
     (case d of (y, m, dd) \<Rightarrow>
        year_text y @ py_str ''-'' @ zfill 2 (decimal m) @ py_str ''-'' @ zfill 2 (decimal dd))"

section \<open>Record extractor\<close>

text \<open>
  BeautifulSoup is library code. The loop of \<open>parse_html_content\<close> is modelled on the
  list of blocks that \<open>find_all\<close> returns; a block is \<open>None\<close> when it has no nested
  \<open>div\<close> of the text class, and otherwise the text nodes below the first such \<open>div\<close>.
  \<open>get_text(strip=True)\<close> strips every text node, drops the empty ones and joins the rest.
  The two calls that make the list, which can raise, are a parameter of
  \<open>parse_html_content_call\<close> below.
\<close>

type_synonym block = "ustr list option"

definition get_text :: "ustr list \<Rightarrow> ustr" where
  "get_text strings = concat (filter (\<lambda>s. s \<noteq> []) (map strip strings))"

definition replace_comma :: "ustr \<Rightarrow> ustr" where
  "replace_comma s = filter (\<lambda>c. c \<noteq> 44) s"

text \<open>An f-string prints \<open>None\<close> as the word.\<close>

definition fmt :: "ustr option \<Rightarrow> ustr" where
  "fmt v = (case v of None \<Rightarrow> py_str ''None'' | Some s \<Rightarrow> s)"

text \<open>
  The body of the \<open>try\<close> of the loop for block number \<open>i\<close>: \<open>Inl\<close> is an exception that
  leaves the body, \<open>Inr None\<close> a pass that appends nothing, \<open>Inr (Some t)\<close> the record
  appended. A method called on the text of a group that took no part in the match would be
  called on \<open>None\<close> and raise \<open>AttributeError\<close>.
\<close>

definition parse_block :: "(nat \<Rightarrow> ustr) \<Rightarrow> nat \<Rightarrow> block \<Rightarrow> py_error + transaction option" where
  "parse_block year_text i block =
     (case block of
        None \<Rightarrow> Inr None
      | Some main_text \<Rightarrow>
          let text = get_text main_text;
              amount_match = re_search amount_re text;
              recipient_match = re_search recipient_re text;
              date_match = re_search date_re text;
              method_match = re_search method_re text
          in case (amount_match, recipient_match, date_match) of
               (Some am, Some rm, Some dm) \<Rightarrow>
                 (case group am 1 of
                    None \<Rightarrow> Inl AttributeError
                  | Some a \<Rightarrow>
                 (case py_float (replace_comma a) of
                    Inl e \<Rightarrow> Inl e
                  | Inr amt \<Rightarrow>
                 (case group rm 1 of
                    None \<Rightarrow> Inl AttributeError
                  | Some r \<Rightarrow>
                 (case (case method_match of
                          None \<Rightarrow> Inr (py_str ''UPI'')
                        | Some mm \<Rightarrow>
                            (case group mm 1 of
                               None \<Rightarrow> Inl AttributeError
                             | Some m \<Rightarrow> Inr (strip m))) of
                    Inl e \<Rightarrow> Inl e
                  | Inr method \<Rightarrow>
                 (case strptime (fmt (group dm 1) @ py_str '' '' @ fmt (group dm 2)
                                   @ py_str '' '' @ fmt (group dm 3)) of
                    Inl ValueError \<Rightarrow> Inr None
                  | Inl e \<Rightarrow> Inl e
                  | Inr date_obj \<Rightarrow>
                      Inr (Some \<lparr>amount = amt, recipient = strip r,
                                  date = strftime year_text date_obj,
                                  payment_method = method,
                                  tid = py_str ''tx_'' @ decimal i\<rparr>))))))
             | _ \<Rightarrow> Inr None)"

text \<open>
  The loop of \<open>parse_html_content\<close>: \<open>except Exception: continue\<close> catches every
  exception of the body, and the next block is processed with the next number. The method
  stores the list in \<open>self.transactions\<close> and returns it.
\<close>

fun parse_blocks :: "(nat \<Rightarrow> ustr) \<Rightarrow> nat \<Rightarrow> block list \<Rightarrow> transaction list \<Rightarrow> transaction list" where
  "parse_blocks year_text i [] transactions = transactions"
| "parse_blocks year_text i (block # blocks) transactions =
     (case parse_block year_text i block of
        Inl e \<Rightarrow> parse_blocks year_text (Suc i) blocks transactions
      | Inr None \<Rightarrow> parse_blocks year_text (Suc i) blocks transactions
      | Inr (Some t) \<Rightarrow> parse_blocks year_text (Suc i) blocks (transactions @ [t]))"

definition parse_html_content :: "(nat \<Rightarrow> ustr) \<Rightarrow> block list \<Rightarrow> transaction list" where
  "parse_html_content year_text blocks = parse_blocks year_text 0 blocks []"

text \<open>
  The method from its first line. \<open>BeautifulSoup(html_content, 'html.parser')\<close> and
  \<open>soup.find_all(...)\<close> run before the loop and outside its \<open>try\<close>, so an exception of
  theirs leaves the method. They enter as \<open>find_blocks\<close>, which answers the blocks of a
  document or the exception raised.
\<close>

definition parse_html_content_call ::
  "(ustr \<Rightarrow> 'e + block list) \<Rightarrow> (nat \<Rightarrow> ustr) \<Rightarrow> ustr \<Rightarrow> 'e + transaction list" where
  "parse_html_content_call find_blocks year_text html_content =
     (case find_blocks html_content of
        Inl e \<Rightarrow> Inl e
      | Inr blocks \<Rightarrow> Inr (parse_html_content year_text blocks))"

section \<open>Timeframe filter\<close>

text \<open>
  \<open>sorted(xs, key=k, reverse=True)\<close>. CPython reverses the list, sorts it with a stable
  ascending sort and reverses it again, so that equal keys keep their input order. A stable
  sort is determined by its keys, so \<open>sort_key\<close> stands for the library's sort.
\<close>

definition py_sorted_reverse :: "('a \<Rightarrow> 'k::linorder) \<Rightarrow> 'a list \<Rightarrow> 'a list" where
  "py_sorted_reverse k xs = rev (sort_key k (rev xs))"

text \<open>
  \<open>GPPayAnalyzer.filter_by_timeframe\<close>, as a function of the held batch
  \<open>self.transactions\<close> and the selector.
\<close>

definition filter_by_timeframe :: "transaction list \<Rightarrow> ustr \<Rightarrow> transaction list" where
  "filter_by_timeframe transactions timeframe =
     (if timeframe = py_str ''all'' then transactions
      else if transactions = [] then []
      else
        let sorted_txns = py_sorted_reverse date transactions in
        if sublist (py_str ''month'') (lower timeframe) then
          (if sublist (py_str ''three'') timeframe \<or> sublist (py_str ''3'') timeframe
           then take 90 sorted_txns
           else take 30 sorted_txns)
        else if sublist (py_str ''week'') (lower timeframe) then take 7 sorted_txns
        else if sublist (py_str ''year'') (lower timeframe) then take 365 sorted_txns
        else take 30 sorted_txns)"

text \<open>
  The size of the window the code takes for a selector other than \<open>all\<close>.
\<close>

definition window :: "ustr \<Rightarrow> nat" where
  "window timeframe =
     (if sublist (py_str ''month'') (lower timeframe) then
        (if sublist (py_str ''three'') timeframe \<or> sublist (py_str ''3'') timeframe
         then 90 else 30)
      else if sublist (py_str ''week'') (lower timeframe) then 7
      else if sublist (py_str ''year'') (lower timeframe) then 365
      else 30)"

section \<open>Aggregator\<close>

text \<open>
  \<open>Series.value_counts\<close>: the distinct values with the number of their occurrences, the
  most frequent first. pandas does not promise an order among equal counts; here they keep
  the order of their first appearance. \<open>head(n)\<close> is \<open>take n\<close>.
\<close>

definition value_counts :: "'a list \<Rightarrow> ('a \<times> nat) list" where
  "value_counts xs =
     py_sorted_reverse snd (map (\<lambda>v. (v, count_list xs v)) (rev (remdups (rev xs))))"

text \<open>
  The counts of a pandas series are \<open>numpy.int64\<close> scalars. \<open>Series.to_dict()\<close> turns
  them into Python integers; \<open>dict(series)\<close> keeps them as they are, and \<open>json.dumps\<close>
  raises \<open>TypeError\<close> on a \<open>numpy.int64\<close>, which is not a Python \<open>int\<close>.
\<close>

datatype pynum = PyInt nat | NpInt64 nat

definition to_dict :: "('a \<times> nat) list \<Rightarrow> ('a \<times> pynum) list" where
  "to_dict series = map (\<lambda>(k, n). (k, PyInt n)) series"

definition dict_of_series :: "('a \<times> nat) list \<Rightarrow> ('a \<times> pynum) list" where
  "dict_of_series series = map (\<lambda>(k, n). (k, NpInt64 n)) series"

text \<open>
  The dictionary \<open>analysis\<close> of \<open>analyze_transaction_data\<close>. Its entries
  \<open>monthly_trends\<close> and \<open>payment_methods\<close> are built with \<open>to_dict\<close>, hold Python values
  only and are read by no property below; they are left out of the record.
\<close>

record analysis =
  total_spend :: rat
  average_transaction :: rat
  transaction_count :: nat
  top_merchants :: "(ustr \<times> pynum) list"
  date_range :: "ustr \<times> ustr"

definition json_dumps :: "analysis \<Rightarrow> py_error + analysis" where
  "json_dumps a =
     (if list_all (\<lambda>(k, v). case v of PyInt n \<Rightarrow> True | NpInt64 n \<Rightarrow> False) (top_merchants a)
      then Inr a else Inl TypeError)"

text \<open>
  What the tool returns: the text \<open>No transactions to analyze\<close>, the JSON text of the
  dictionary, or the text \<open>Error analyzing data: ...\<close> of the handler of the function.
  The argument is the list that \<open>json.loads\<close> decodes.
\<close>

datatype tool_output = NoTransactionsToAnalyze | Json analysis | ErrorAnalyzingData py_error

definition build_analysis :: "transaction list \<Rightarrow> analysis" where
  "build_analysis df =
     (let total_spend = sum_list (map amount df);
          avg_transaction = total_spend / of_nat (length df)
      in \<lparr>total_spend = total_spend,
          average_transaction = avg_transaction,
          transaction_count = length df,
          top_merchants = dict_of_series (take 5 (value_counts (map recipient df))),
          date_range = (Min (set (map date df)), Max (set (map date df)))\<rparr>)"

definition analyze_transaction_data :: "transaction list \<Rightarrow> tool_output" where
  "analyze_transaction_data df =
     (if length df = 0 then NoTransactionsToAnalyze
      else case json_dumps (build_analysis df) of
             Inl e \<Rightarrow> ErrorAnalyzingData e
           | Inr text \<Rightarrow> Json text)"

text \<open>
  The body of the endpoint \<open>/quick-insights\<close> after parsing: the same figures, with the top
  merchant taken through \<open>to_dict\<close>. The 400 raised for an empty batch is raised inside the
  \<open>try\<close> and leaves the endpoint as a 500; the framework encodes the dictionary.
\<close>

datatype http_answer = Status500 | Insights analysis

definition get_quick_insights :: "transaction list \<Rightarrow> http_answer" where
  "get_quick_insights txs =
     (if txs = [] then Status500
      else
        let total_spend = sum_list (map amount txs);
            avg_transaction = total_spend / of_nat (length txs);
            top_merchant = to_dict (take 1 (value_counts (map recipient txs)));
            insights = \<lparr>total_spend = total_spend,
                        average_transaction = avg_transaction,
                        transaction_count = length txs,
                        top_merchants = top_merchant,
                        date_range = (Min (set (map date txs)), Max (set (map date txs)))\<rparr>
        in case json_dumps insights of Inl e \<Rightarrow> Status500 | Inr a \<Rightarrow> Insights a)"

section \<open>Insight facade\<close>

text \<open>
  \<open>GPPayAnalyzer.analyze_with_crewai\<close>. Whether a language model is configured and what
  the crew answers are outside the program: \<open>llm\<close> says whether the agents exist, and
  \<open>crew\<close> is the run of the crew, \<open>None\<close> when it raises. The basic analysis keeps the
  figures that its texts print.
\<close>

record basic_analysis =
  total_transactions :: nat
  basic_total_spend :: rat
  basic_average :: rat
  most_frequent_merchant :: "ustr option"

datatype 'r insights =
    NoTransactionsFound ustr
  | BasicAnalysis basic_analysis
  | CrewAnalysis 'r
  | CrewFailed

definition analyze_with_crewai ::
  "bool \<Rightarrow> (transaction list \<Rightarrow> ustr \<Rightarrow> ustr \<Rightarrow> 'r option) \<Rightarrow> transaction list \<Rightarrow> ustr \<Rightarrow> ustr
     \<Rightarrow> 'r insights" where
  "analyze_with_crewai llm crew transactions query timeframe =
     (let filtered_txns = filter_by_timeframe transactions timeframe in
      if filtered_txns = [] then NoTransactionsFound timeframe
      else if \<not> llm then
        BasicAnalysis
          \<lparr>total_transactions = length filtered_txns,
           basic_total_spend = sum_list (map amount filtered_txns),
           basic_average = sum_list (map amount filtered_txns) / of_nat (length filtered_txns),
           most_frequent_merchant =
             (case take 1 (value_counts (map recipient filtered_txns)) of
                [] \<Rightarrow> None | (k, n) # _ \<Rightarrow> Some k)\<rparr>
      else
        case crew filtered_txns query timeframe of
          None \<Rightarrow> CrewFailed
        | Some r \<Rightarrow> CrewAnalysis r)"

subsection \<open>The same method on list objects\<close>

text \<open>
  Python lists are objects, and the method may hand back the very list it holds. The store
  is the sequence of list objects allocated so far, an address is a position in it, and
  the analyzer holds the address of its batch. \<open>sorted\<close> and a slice each allocate a new
  list; \<open>[]\<close> allocates a new empty list; \<open>return self.transactions\<close> allocates nothing.
\<close>

type_synonym addr = nat
type_synonym store = "transaction list list"

record analyzer =
  transactions :: addr

definition new_list :: "store \<Rightarrow> transaction list \<Rightarrow> addr \<times> store" where
  "new_list h v = (length h, h @ [v])"

definition filter_by_timeframe_obj :: "store \<Rightarrow> analyzer \<Rightarrow> ustr \<Rightarrow> addr \<times> store" where
  "filter_by_timeframe_obj h self timeframe =
     (if timeframe = py_str ''all'' then (transactions self, h)
      else if h ! transactions self = [] then new_list h []
      else
        let (sorted_txns, h1) = new_list h (py_sorted_reverse date (h ! transactions self)) in
        if sublist (py_str ''month'') (lower timeframe) then
          (if sublist (py_str ''three'') timeframe \<or> sublist (py_str ''3'') timeframe
           then new_list h1 (take 90 (h1 ! sorted_txns))
           else new_list h1 (take 30 (h1 ! sorted_txns)))
        else if sublist (py_str ''week'') (lower timeframe) then
          new_list h1 (take 7 (h1 ! sorted_txns))
        else if sublist (py_str ''year'') (lower timeframe) then
          new_list h1 (take 365 (h1 ! sorted_txns))
        else new_list h1 (take 30 (h1 ! sorted_txns)))"

section \<open>Notions used to state the properties\<close>

text \<open>
  What the loop appends for a block: the record, or nothing when the body passes or raises.
\<close>

definition appended :: "(nat \<Rightarrow> ustr) \<Rightarrow> nat \<Rightarrow> block \<Rightarrow> transaction option" where
  "appended year_text i block =
     (case parse_block year_text i block of Inr (Some t) \<Rightarrow> Some t | _ \<Rightarrow> None)"

text \<open>
  A text begins with a closing marker of the recipient when it begins with white space
  followed by the letters \<open>using\<close> or \<open>on\<close>. It begins with a mask or is at the end when
  it begins with white space followed by \<open>X\<close> or \<open>x\<close>, or is white space altogether.
\<close>

definition marker_follows :: "ustr \<Rightarrow> bool" where
  "marker_follows u =
     (takeWhile is_space u \<noteq> [] \<and>
      (prefix (py_str ''using'') (dropWhile is_space u) \<or>
       prefix (py_str ''on'') (dropWhile is_space u)))"

definition mask_or_end_follows :: "ustr \<Rightarrow> bool" where
  "mask_or_end_follows u =
     (case dropWhile is_space u of
        [] \<Rightarrow> True
      | c # _ \<Rightarrow> takeWhile is_space u \<noteq> [] \<and> one_of ''Xx'' c)"

text \<open>
  The fixed-width form \<open>YYYY-MM-DD\<close> of a day of the calendar.
\<close>

definition iso_date :: "ustr \<Rightarrow> bool" where
  "iso_date s =
     (length s = 10 \<and> s ! 4 = 45 \<and> s ! 7 = 45 \<and>
      list_all ascii_digit (take 4 s) \<and> list_all ascii_digit (take 2 (drop 5 s)) \<and>
      list_all ascii_digit (drop 8 s) \<and>
      valid_date (digits_value (take 4 s), digits_value (take 2 (drop 5 s)),
                  digits_value (drop 8 s)))"

text \<open>
  A pattern is plain for a class when it has no group and reads characters of the class
  only.
\<close>

fun plain :: "(nat \<Rightarrow> bool) \<Rightarrow> re \<Rightarrow> bool" where
  "plain Q (Lit w) = list_all Q w"
| "plain Q (Rep greedy cls lo hi) = (\<forall>c. cls c \<longrightarrow> Q c)"
| "plain Q (Seq r1 r2) = (plain Q r1 \<and> plain Q r2)"
| "plain Q (Alt r1 r2) = (plain Q r1 \<and> plain Q r2)"
| "plain Q (Opt r) = plain Q r"
| "plain Q (Grp n r) = False"
| "plain Q Eol = True"

section \<open>Sample inputs\<close>

definition sample_record :: "nat \<Rightarrow> ustr \<Rightarrow> transaction" where
  "sample_record i d =
     \<lparr>amount = 10, recipient = py_str ''Swiggy'', date = d,
      payment_method = py_str ''UPI'', tid = py_str ''tx_'' @ decimal i\<rparr>"

definition batch31 :: "transaction list" where
  "batch31 = map (\<lambda>i. sample_record i (py_str ''2024-11-15'')) [0..<31]"

definition batch3 :: "transaction list" where
  "batch3 = [sample_record 0 (py_str ''2024-11-13''), sample_record 1 (py_str ''2024-11-15''),
             sample_record 2 (py_str ''2024-11-13'')]"

definition store1 :: store where
  "store1 = [batch3]"

definition analyzer1 :: analyzer where
  "analyzer1 = \<lparr>transactions = 0\<rparr>"

text \<open>The sample document of the test scripts.\<close>

definition sentence1 :: ustr where
  "sentence1 = py_str ''You paid '' @ [8377] @ py_str ''150.00 to Swiggy using HDFC Bank on 15 Nov 2024''"

definition sentence2 :: ustr where
  "sentence2 = py_str ''You paid '' @ [8377] @ py_str ''85.50 to Zomato using UPI on 14 Nov 2024''"

definition sentence3 :: ustr where
  "sentence3 = py_str ''You paid '' @ [8377] @ py_str ''200.00 to Amazon using Credit Card on 13 Nov 2024''"

definition in_markup :: "ustr \<Rightarrow> ustr" where
  "in_markup s = py_str ''\<newline>            '' @ s @ py_str ''\<newline>        ''"

definition document3 :: "block list" where
  "document3 = [Some [in_markup sentence1], Some [in_markup sentence2], Some [in_markup sentence3]]"

definition record1 :: transaction where
  "record1 = \<lparr>amount = 150, recipient = py_str ''Swiggy'', date = py_str ''2024-11-15'',
       payment_method = py_str ''HDFC Bank on 15 Nov 2024'', tid = py_str ''tx_0''\<rparr>"

definition record2 :: transaction where
  "record2 = \<lparr>amount = 171 / 2, recipient = py_str ''Zomato'', date = py_str ''2024-11-14'',
       payment_method = py_str ''UPI on 14 Nov 2024'', tid = py_str ''tx_1''\<rparr>"

definition record3 :: transaction where
  "record3 = \<lparr>amount = 200, recipient = py_str ''Amazon'', date = py_str ''2024-11-13'',
       payment_method = py_str ''Credit Card on 13 Nov 2024'', tid = py_str ''tx_2''\<rparr>"

text \<open>Sentences that show what the patterns do on other texts.\<close>

definition sentence_zero :: ustr where
  "sentence_zero = py_str ''You paid '' @ [8377] @ py_str ''0 to   on 1 Jan 0999''"


definition sentence_commas :: ustr where
  "sentence_commas = py_str ''You paid '' @ [8377] @ py_str '',,, to Bob using UPI on 1 Jan 2024''"


section \<open>Properties of the timeframe filter\<close>

lemma mset_py_sorted_reverse: "mset (py_sorted_reverse k xs) = mset xs"
  by (simp add: py_sorted_reverse_def)

lemma length_py_sorted_reverse: "length (py_sorted_reverse k xs) = length xs"
  by (simp add: py_sorted_reverse_def)

lemma descending_py_sorted_reverse: "sorted (rev (map k (py_sorted_reverse k xs)))"
  by (simp add: py_sorted_reverse_def rev_map)

lemma stable_py_sorted_reverse:
  "filter (\<lambda>y. k y = v) (py_sorted_reverse k xs) = filter (\<lambda>y. k y = v) xs"
  by (simp add: py_sorted_reverse_def sort_key_stable flip: rev_filter)

lemma filter_by_timeframe_window:
  "timeframe \<noteq> py_str ''all'' \<Longrightarrow>
   filter_by_timeframe txs timeframe = take (window timeframe) (py_sorted_reverse date txs)"
  by (simp add: filter_by_timeframe_def window_def py_sorted_reverse_def)

lemma length_filter_by_timeframe:
  "timeframe \<noteq> py_str ''all'' \<Longrightarrow>
   length (filter_by_timeframe txs timeframe) = min (window timeframe) (length txs)"
  by (simp add: filter_by_timeframe_window length_py_sorted_reverse)

lemmas str_eval = py_str_def lower_def lower_char_def sublist_code prefix_code

lemma window_one_week: "window (py_str ''one week'') = 7"
  by (simp add: window_def str_eval)

lemma filter_by_timeframe_one_week:
  "filter_by_timeframe txs (py_str ''one week'') = take 7 (py_sorted_reverse date txs)"
  "length (filter_by_timeframe txs (py_str ''one week'')) = min 7 (length txs)"
  using filter_by_timeframe_window [of "py_str ''one week''" txs]
        length_filter_by_timeframe [of "py_str ''one week''" txs]
  by (simp_all add: window_one_week) (simp_all add: py_str_def)

lemma length_batch31: "length batch31 = 31"
  by (simp add: batch31_def)

text \<open>
  C5. A selector with \<open>month\<close> and \<open>three\<close> selects the 90 most recent records, all
  matching being blind to case. The code lower-cases the selector for \<open>month\<close>, \<open>week\<close>
  and \<open>year\<close> but not for \<open>three\<close>: of 31 records the selector \<open>Three months\<close> keeps
  30, where \<open>three months\<close> keeps all 31.
\<close>

theorem filter_three_is_case_sensitive:
  "length (filter_by_timeframe batch31 (py_str ''Three months'')) = 30 \<and>
   length (filter_by_timeframe batch31 (py_str ''three months'')) = 31"
proof -
  have a: "py_str ''Three months'' \<noteq> py_str ''all''" "py_str ''three months'' \<noteq> py_str ''all''"
    by (simp_all add: py_str_def)
  have w: "window (py_str ''Three months'') = 30" "window (py_str ''three months'') = 90"
    by (simp_all add: window_def str_eval)
  show ?thesis
    by (simp add: length_filter_by_timeframe [OF a(1)] length_filter_by_timeframe [OF a(2)]
                  w length_batch31)
qed

text \<open>
  C6. A selector that holds \<open>all\<close> in any case is the identity. The code compares the
  selector with the word \<open>all\<close> itself: the selector \<open>All\<close> is any other selector and
  keeps 30 of 31 records.
\<close>

theorem filter_All_is_a_window:
  "mset (filter_by_timeframe batch31 (py_str ''All'')) \<noteq> mset batch31"
proof
  assume "mset (filter_by_timeframe batch31 (py_str ''All'')) = mset batch31"
  then have "length (filter_by_timeframe batch31 (py_str ''All'')) = length batch31"
    by (metis size_mset)
  moreover have "py_str ''All'' \<noteq> py_str ''all''"
    by (simp add: py_str_def)
  moreover have "window (py_str ''All'') = 30"
    by (simp add: window_def str_eval)
  ultimately show False
    by (simp add: length_filter_by_timeframe length_batch31)
qed

text \<open>
  C6, amended. The selector that is the word \<open>all\<close> itself returns the held batch as it
  is, in content and in order.
\<close>

theorem filter_all_is_identity:
  "filter_by_timeframe txs (py_str ''all'') = txs"
  by (simp add: filter_by_timeframe_def)

text \<open>
  C10. For a selector other than \<open>all\<close>, the records of one date come out in the order
  they had in the batch: what is returned of them is an initial part of their sequence in
  the batch.
\<close>

theorem filter_keeps_order_of_equal_dates:
  assumes "timeframe \<noteq> py_str ''all''"
  shows "prefix (filter (\<lambda>r. date r = d) (filter_by_timeframe txs timeframe))
                (filter (\<lambda>r. date r = d) txs)"
proof -
  have "prefix (take (window timeframe) (py_sorted_reverse date txs)) (py_sorted_reverse date txs)"
    by (rule take_is_prefix)
  then have "prefix (filter (\<lambda>r. date r = d) (take (window timeframe) (py_sorted_reverse date txs)))
                    (filter (\<lambda>r. date r = d) (py_sorted_reverse date txs))"
    by (rule filter_mono_prefix)
  then show ?thesis
    using assms by (simp add: filter_by_timeframe_window stable_py_sorted_reverse)
qed

lemma date_sample_record: "date (sample_record i d) = d"
  by (simp add: sample_record_def)

lemma one_week_of_batch3:
  "filter_by_timeframe batch3 (py_str ''one week'') =
     [sample_record 1 (py_str ''2024-11-15''), sample_record 0 (py_str ''2024-11-13''),
      sample_record 2 (py_str ''2024-11-13'')]"
  unfolding filter_by_timeframe_one_week(1) batch3_def py_sorted_reverse_def
  by (simp add: date_sample_record py_str_def)

theorem filter_keeps_order_of_equal_dates_witness:
  "py_str ''one week'' \<noteq> py_str ''all'' \<and>
   filter_by_timeframe batch3 (py_str ''one week'') =
     [sample_record 1 (py_str ''2024-11-15''), sample_record 0 (py_str ''2024-11-13''),
      sample_record 2 (py_str ''2024-11-13'')] \<and>
   prefix (filter (\<lambda>r. date r = py_str ''2024-11-13'')
             (filter_by_timeframe batch3 (py_str ''one week'')))
          (filter (\<lambda>r. date r = py_str ''2024-11-13'') batch3)"
proof -
  have a: "py_str ''one week'' \<noteq> py_str ''all''"
    by (simp add: py_str_def)
  show ?thesis
    using a one_week_of_batch3
      filter_keeps_order_of_equal_dates [OF a, of "py_str ''2024-11-13''" batch3]
    by simp
qed

subsection \<open>The filter on list objects\<close>

lemma filter_by_timeframe_obj_value:
  assumes "filter_by_timeframe_obj h self timeframe = (r, h')"
  shows "h' ! r = filter_by_timeframe (h ! transactions self) timeframe"
  using assms
  by (auto simp: filter_by_timeframe_obj_def filter_by_timeframe_def new_list_def Let_def
                 nth_append split: if_splits)

lemma filter_by_timeframe_obj_old:
  assumes "filter_by_timeframe_obj h self timeframe = (r, h')"
  shows "take (length h) h' = h"
  using assms
  by (auto simp: filter_by_timeframe_obj_def new_list_def Let_def split: if_splits)

lemma filter_by_timeframe_obj_new:
  assumes "filter_by_timeframe_obj h self timeframe = (r, h')" "timeframe \<noteq> py_str ''all''"
  shows "length h \<le> r \<and> r < length h'"
  using assms
  by (auto simp: filter_by_timeframe_obj_def new_list_def Let_def split: if_splits)

text \<open>
  C9. The filter returns a new sequence. For the selector \<open>all\<close> the code returns the
  list it holds: the address returned is the address of the batch, and nothing is
  allocated.
\<close>

theorem filter_all_returns_held_list:
  "filter_by_timeframe_obj store1 analyzer1 (py_str ''all'') = (transactions analyzer1, store1)"
  by (simp add: filter_by_timeframe_obj_def)

text \<open>
  C9, amended. No list that exists before the call is changed by it, the held batch
  included. For the selector \<open>all\<close> the list returned is the held batch itself; for every
  other selector it is a list allocated by the call. Its content is what the filter
  computes, which is empty for an empty batch.
\<close>

theorem filter_frame:
  assumes "transactions self < length h"
      and "filter_by_timeframe_obj h self timeframe = (r, h')"
  shows "take (length h) h' = h \<and>
         h' ! transactions self = h ! transactions self \<and>
         h' ! r = filter_by_timeframe (h ! transactions self) timeframe \<and>
         (if timeframe = py_str ''all'' then r = transactions self \<and> h' = h
          else length h \<le> r \<and> r < length h') \<and>
         filter_by_timeframe [] timeframe = []"
proof -
  have t: "take (length h) h' = h"
    using assms(2) by (rule filter_by_timeframe_obj_old)
  have "h' ! transactions self = take (length h) h' ! transactions self"
    using assms(1) by simp
  then have u: "h' ! transactions self = h ! transactions self"
    by (simp add: t)
  have v: "h' ! r = filter_by_timeframe (h ! transactions self) timeframe"
    using assms(2) by (rule filter_by_timeframe_obj_value)
  have w: "if timeframe = py_str ''all'' then r = transactions self \<and> h' = h
           else length h \<le> r \<and> r < length h'"
    using assms(2) filter_by_timeframe_obj_new [OF assms(2)]
    by (auto simp: filter_by_timeframe_obj_def)
  have e: "filter_by_timeframe [] timeframe = []"
    by (simp add: filter_by_timeframe_def)
  show ?thesis
    using t u v w e by blast
qed

lemma one_week_of_store1:
  "filter_by_timeframe_obj store1 analyzer1 (py_str ''one week'') =
     (2, [batch3, py_sorted_reverse date batch3, take 7 (py_sorted_reverse date batch3)])"
proof -
  have "py_str ''one week'' \<noteq> py_str ''all''"
    by (simp add: py_str_def)
  moreover have "batch3 \<noteq> []"
    by (simp add: batch3_def)
  moreover have "\<not> sublist (py_str ''month'') (lower (py_str ''one week''))"
                "sublist (py_str ''week'') (lower (py_str ''one week''))"
    by (simp_all add: str_eval)
  ultimately show ?thesis
    by (simp add: filter_by_timeframe_obj_def store1_def analyzer1_def new_list_def)
qed

theorem filter_frame_witness:
  "transactions analyzer1 < length store1 \<and>
   filter_by_timeframe_obj store1 analyzer1 (py_str ''one week'') =
     (2, [batch3, py_sorted_reverse date batch3, take 7 (py_sorted_reverse date batch3)]) \<and>
   [batch3, py_sorted_reverse date batch3, take 7 (py_sorted_reverse date batch3)]
     ! transactions analyzer1 = store1 ! transactions analyzer1 \<and>
   length store1 \<le> 2"
proof -
  have a: "transactions analyzer1 < length store1"
    by (simp add: analyzer1_def store1_def)
  have b: "py_str ''one week'' \<noteq> py_str ''all''"
    by (simp add: py_str_def)
  note f = filter_frame [OF a one_week_of_store1]
  have "[batch3, py_sorted_reverse date batch3, take 7 (py_sorted_reverse date batch3)]
          ! transactions analyzer1 = store1 ! transactions analyzer1"
    using f by blast
  moreover have "length store1 \<le> 2"
    using f b by (simp only: if_False)
  ultimately show ?thesis
    using a one_week_of_store1 by blast
qed

section \<open>The sample document\<close>

lemmas class_eval = is_space_def any_char_def ascii_digit_def ascii_letter_def one_of_def
  is_digit_def digit_value_def method_char_def
lemmas re_eval = amount_re_def recipient_re_def date_re_def method_re_def
  group_def Let_def upt_conv_Cons prefix_code
lemmas date_eval = strptime_def strptime_re_def ignore_case_def a_month_def py_int_def strip_def
  index_of.simps lower_def lower_char_def valid_date_def days_in_month_def is_leap_def
  strftime_def zfill_def decimal.simps fmt_def
lemmas float_eval = replace_comma_def py_float_def digits_value_def

lemma get_text_in_markup:
  "get_text [in_markup sentence1] = sentence1"
  "get_text [in_markup sentence2] = sentence2"
  "get_text [in_markup sentence3] = sentence3"
  by (simp_all add: get_text_def in_markup_def sentence1_def sentence2_def sentence3_def
                    strip_def py_str_def is_space_def)

lemma block1:
  assumes "year_text 2024 = py_str ''2024''"
  shows "parse_block year_text 0 (Some [in_markup sentence1]) = Inr (Some record1)"
  unfolding parse_block_def option.case get_text_in_markup
  by (simp add: assms sentence1_def record1_def py_str_def class_eval re_eval date_eval float_eval)

lemma block2:
  assumes "year_text 2024 = py_str ''2024''"
  shows "parse_block year_text 1 (Some [in_markup sentence2]) = Inr (Some record2)"
  unfolding parse_block_def option.case get_text_in_markup
  by (simp add: assms sentence2_def record2_def py_str_def class_eval re_eval date_eval float_eval)

lemma block3:
  assumes "year_text 2024 = py_str ''2024''"
  shows "parse_block year_text 2 (Some [in_markup sentence3]) = Inr (Some record3)"
  unfolding parse_block_def option.case get_text_in_markup
  by (simp add: assms sentence3_def record3_def py_str_def class_eval re_eval date_eval float_eval)

lemma year_2024:
  "year_plain 2024 = py_str ''2024''" "year_padded 2024 = py_str ''2024''"
  by (simp_all add: year_plain_def year_padded_def zfill_def decimal.simps py_str_def)

lemma parse_document3:
  assumes "year_text 2024 = py_str ''2024''"
  shows "parse_html_content year_text document3 = [record1, record2, record3]"
  using assms block1 [of year_text] block2 [of year_text] block3 [of year_text]
  by (simp add: parse_html_content_def document3_def numeral_2_eq_2)

lemma analysis3:
  "build_analysis [record1, record2, record3] =
     \<lparr>total_spend = 871 / 2, average_transaction = 871 / 6, transaction_count = 3,
      top_merchants = [(py_str ''Swiggy'', NpInt64 1), (py_str ''Zomato'', NpInt64 1),
                       (py_str ''Amazon'', NpInt64 1)],
      date_range = (py_str ''2024-11-13'', py_str ''2024-11-15'')\<rparr>"
  by (simp add: build_analysis_def record1_def record2_def record3_def value_counts_def
                py_sorted_reverse_def dict_of_series_def py_str_def)

text \<open>
  C3. From the three sentences of the sample document the extractor returns the three
  records with the amounts, dates and recipients of the claim, and the dictionary that
  \<open>analyze_transaction_data\<close> builds from them holds the total 435.5, the average
  871/6 = 145.1666..., the count 3 and the date range. The function does not return it:
  \<open>top_merchants\<close> is built with \<open>dict(...)\<close> where the line for \<open>top_merchant\<close>
  uses \<open>.to_dict()\<close>, its counts are \<open>numpy.int64\<close>, \<open>json.dumps\<close> raises, and
  the handler returns the error text.
\<close>

theorem three_sentences:
  "parse_html_content year_plain document3 = [record1, record2, record3] \<and>
   parse_html_content year_padded document3 = [record1, record2, record3] \<and>
   map amount [record1, record2, record3] = [150, 171 / 2, 200] \<and>
   map date [record1, record2, record3] = map py_str [''2024-11-15'', ''2024-11-14'', ''2024-11-13''] \<and>
   map recipient [record1, record2, record3] = map py_str [''Swiggy'', ''Zomato'', ''Amazon''] \<and>
   total_spend (build_analysis [record1, record2, record3]) = 871 / 2 \<and>
   average_transaction (build_analysis [record1, record2, record3]) = 871 / 6 \<and>
   transaction_count (build_analysis [record1, record2, record3]) = 3 \<and>
   date_range (build_analysis [record1, record2, record3]) = (py_str ''2024-11-13'', py_str ''2024-11-15'') \<and>
   analyze_transaction_data [record1, record2, record3] = ErrorAnalyzingData TypeError"
proof -
  have "analyze_transaction_data [record1, record2, record3] = ErrorAnalyzingData TypeError"
    unfolding analyze_transaction_data_def analysis3 by (simp add: json_dumps_def)
  then show ?thesis
    unfolding analysis3
    by (simp add: parse_document3 year_2024) (simp add: record1_def record2_def record3_def)
qed

section \<open>Properties of the aggregator\<close>

text \<open>
  C4. On the empty record set \<open>analyze_transaction_data\<close> returns its marker
  \<open>No transactions to analyze\<close> and \<open>analyze_with_crewai\<close> its error marker, whatever
  the selector, the query and the language model: neither result is an exception or holds a
  figure, and no mean is computed.
\<close>

theorem summarize_empty:
  "analyze_transaction_data [] = NoTransactionsToAnalyze \<and>
   analyze_with_crewai llm crew [] query timeframe = NoTransactionsFound timeframe"
  by (simp add: analyze_transaction_data_def analyze_with_crewai_def filter_by_timeframe_def)

text \<open>The endpoint \<open>/quick-insights\<close> returns the same figures for the sample.\<close>

lemma quick_insights3:
  "get_quick_insights [record1, record2, record3] =
     Insights \<lparr>total_spend = 871 / 2, average_transaction = 871 / 6, transaction_count = 3,
               top_merchants = [(py_str ''Swiggy'', PyInt 1)],
               date_range = (py_str ''2024-11-13'', py_str ''2024-11-15'')\<rparr>"
  by (simp add: get_quick_insights_def record1_def record2_def record3_def value_counts_def
                py_sorted_reverse_def to_dict_def json_dumps_def py_str_def)

section \<open>Properties of the matcher\<close>

subsection \<open>The first state of a search\<close>

lemma concat_map_first:
  "concat (map f xs) = y # ys \<Longrightarrow>
   \<exists>xs1 x xs2 zs. xs = xs1 @ x # xs2 \<and> (\<forall>a\<in>set xs1. f a = []) \<and> f x = y # zs"
proof (induction xs)
  case Nil
  then show ?case by simp
next
  case (Cons a xs)
  note prems = Cons.prems and IH = Cons.IH
  show ?case
  proof (cases "f a = []")
    case True
    with prems have "concat (map f xs) = y # ys" by simp
    from IH [OF this] obtain xs1 x xs2 zs where
      "xs = xs1 @ x # xs2" "\<forall>a\<in>set xs1. f a = []" "f x = y # zs" by blast
    with True have "a # xs = (a # xs1) @ x # xs2 \<and> (\<forall>b\<in>set (a # xs1). f b = []) \<and> f x = y # zs"
      by simp
    then show ?thesis by blast
  next
    case False
    then obtain b bs where "f a = b # bs" by (cases "f a") auto
    with prems have "f a = y # bs" by simp
    then have "a # xs = [] @ a # xs \<and> (\<forall>b\<in>set []. f b = []) \<and> f a = y # bs" by simp
    then show ?thesis by blast
  qed
qed

lemma re_search_Nil_None: "re_search r [] = None \<Longrightarrow> run r ([], []) = []"
  by (cases "run r ([], [])") auto

lemma re_search_Cons_None:
  "re_search r (c # s) = None \<Longrightarrow> run r (c # s, []) = [] \<and> re_search r s = None"
  by (cases "run r (c # s, [])") auto

lemma re_search_Nil_Some:
  "re_search r [] = Some g \<Longrightarrow> \<exists>u' rest. run r ([], []) = (u', g) # rest"
  by (cases "run r ([], [])") auto

lemma re_search_Cons_Some:
  "re_search r (c # s) = Some g \<Longrightarrow>
   (run r (c # s, []) = [] \<and> re_search r s = Some g) \<or>
   (\<exists>u' rest. run r (c # s, []) = (u', g) # rest)"
  by (cases "run r (c # s, [])") auto

lemma re_search_Some:
  "re_search r s = Some g \<Longrightarrow>
   \<exists>pre u u' rest. s = pre @ u \<and> run r (u, []) = (u', g) # rest \<and>
     (\<forall>k < length pre. run r (drop k s, []) = [])"
proof (induction s)
  case Nil
  from re_search_Nil_Some [OF Nil] obtain u' rest where "run r ([], []) = (u', g) # rest"
    by blast
  then show ?case
    by (intro exI [of _ "[]"] exI [of _ u'] exI [of _ rest]) simp
next
  case (Cons c s)
  note prems = Cons.prems and IH = Cons.IH
  from re_search_Cons_Some [OF prems] show ?case
  proof
    assume a: "run r (c # s, []) = [] \<and> re_search r s = Some g"
    then have "re_search r s = Some g" by simp
    from IH [OF this] obtain pre u u' rest where
      p: "s = pre @ u" "run r (u, []) = (u', g) # rest"
         "\<forall>k < length pre. run r (drop k s, []) = []" by blast
    have q: "\<forall>k < length (c # pre). run r (drop k (c # s), []) = []"
    proof (intro allI impI)
      fix k assume k: "k < length (c # pre)"
      show "run r (drop k (c # s), []) = []"
      proof (cases k)
        case 0
        then show ?thesis using a by simp
      next
        case (Suc j)
        with k have "j < length pre" by simp
        with p(3) have "run r (drop j s, []) = []" by blast
        with Suc show ?thesis by simp
      qed
    qed
    have "c # s = (c # pre) @ u"
      using p(1) by simp
    with p(2) q show ?thesis
      by (intro exI [of _ "c # pre"] exI [of _ u] exI [of _ u'] exI [of _ rest] conjI)
  next
    assume "\<exists>u' rest. run r (c # s, []) = (u', g) # rest"
    then obtain u' sts where "run r (c # s, []) = (u', g) # sts" by blast
    then show ?thesis
      by (intro exI [of _ "[]"] exI [of _ "c # s"] exI [of _ u'] exI [of _ sts]) simp
  qed
qed

lemma re_search_None:
  "re_search r s = None \<Longrightarrow> k \<le> length s \<Longrightarrow> run r (drop k s, []) = []"
proof (induction s arbitrary: k)
  case Nil
  then show ?case using re_search_Nil_None by simp
next
  case (Cons c s)
  note prems = Cons.prems and IH = Cons.IH
  from re_search_Cons_None [OF prems(1)]
  have a: "run r (c # s, []) = []" and b: "re_search r s = None"
    by simp_all
  show ?case
  proof (cases k)
    case 0
    with a show ?thesis by simp
  next
    case (Suc j)
    with prems(2) have "j \<le> length s" by simp
    from IH [OF b this] Suc show ?thesis by simp
  qed
qed

lemma take_le_takeWhile:
  "k \<le> length (takeWhile P u) \<Longrightarrow> list_all P (take k u) \<and> k \<le> length u"
proof (induction u arbitrary: k)
  case Nil
  then show ?case by simp
next
  case (Cons c u)
  show ?case
  proof (cases k)
    case 0
    then show ?thesis by simp
  next
    case (Suc j)
    with Cons.prems have "P c" "j \<le> length (takeWhile P u)"
      by (auto split: if_splits)
    with Cons.IH [of j] Suc show ?thesis by simp
  qed
qed

lemma set_run_Rep:
  "set (run (Rep greedy cls lo hi) (u, g)) =
     (\<lambda>k. (drop k u, g)) `
       {lo ..< Suc (case hi of None \<Rightarrow> length (takeWhile cls u)
                    | Some h \<Rightarrow> min h (length (takeWhile cls u)))}"
  by (cases greedy) (simp_all add: Let_def del: upt_Suc)

lemma run_Rep_mem:
  assumes "(u', g') \<in> set (run (Rep greedy cls lo hi) (u, g))"
  shows "\<exists>k. lo \<le> k \<and> k \<le> length (takeWhile cls u) \<and> u' = drop k u \<and> g' = g"
proof -
  from assms obtain k where
    k: "lo \<le> k" "k < Suc (case hi of None \<Rightarrow> length (takeWhile cls u)
                   | Some h \<Rightarrow> min h (length (takeWhile cls u)))" "u' = drop k u" "g' = g"
    unfolding set_run_Rep by auto
  then have "k \<le> length (takeWhile cls u)"
    by (auto split: option.splits)
  with k show ?thesis by blast
qed

lemma first_of_upt:
  "concat (map f [a..<b]) = y # ys \<Longrightarrow>
   \<exists>k zs. a \<le> k \<and> k < b \<and> f k = y # zs \<and> (\<forall>j. a \<le> j \<and> j < k \<longrightarrow> f j = [])"
proof (induction "b - a" arbitrary: a)
  case 0
  then show ?case by simp
next
  case (Suc n)
  note hyps = Suc.hyps and prems = Suc.prems
  from hyps(2) have ab: "a < b" by simp
  then have upt: "[a..<b] = a # [Suc a..<b]" by (simp add: upt_rec)
  show ?case
  proof (cases "f a = []")
    case True
    with prems upt have c: "concat (map f [Suc a..<b]) = y # ys" by simp
    from hyps(2) have "n = b - Suc a" by simp
    from hyps(1) [OF this c] obtain k zs where
      k: "Suc a \<le> k" "k < b" "f k = y # zs" "\<forall>j. Suc a \<le> j \<and> j < k \<longrightarrow> f j = []" by blast
    have "\<forall>j. a \<le> j \<and> j < k \<longrightarrow> f j = []"
    proof (intro allI impI)
      fix j assume j: "a \<le> j \<and> j < k"
      show "f j = []"
      proof (cases "j = a")
        case True
        with \<open>f a = []\<close> show ?thesis by simp
      next
        case False
        with j have "Suc a \<le> j \<and> j < k" by simp
        with k(4) show ?thesis by blast
      qed
    qed
    moreover have "a \<le> k" using k(1) by simp
    ultimately show ?thesis using k(2,3) by blast
  next
    case False
    then obtain z zs where "f a = z # zs" by (cases "f a") auto
    with prems upt have "f a = y # zs" by simp
    moreover have "\<forall>j. a \<le> j \<and> j < a \<longrightarrow> f j = []" by auto
    ultimately show ?thesis using ab by blast
  qed
qed

lemma first_of_rev_upt:
  "concat (map f (rev [a..<b])) = y # ys \<Longrightarrow>
   \<exists>k zs. a \<le> k \<and> k < b \<and> f k = y # zs \<and> (\<forall>j. k < j \<and> j < b \<longrightarrow> f j = [])"
proof (induction b)
  case 0
  then show ?case by simp
next
  case (Suc b)
  note IH = Suc.IH and prems = Suc.prems
  show ?case
  proof (cases "a \<le> b")
    case False
    with prems show ?thesis by simp
  next
    case True
    then have upt: "rev [a..<Suc b] = b # rev [a..<b]" by simp
    show ?thesis
    proof (cases "f b = []")
      case True
      with prems upt have "concat (map f (rev [a..<b])) = y # ys" by simp
      from IH [OF this] obtain k zs where
        k: "a \<le> k" "k < b" "f k = y # zs" "\<forall>j. k < j \<and> j < b \<longrightarrow> f j = []" by blast
      have "\<forall>j. k < j \<and> j < Suc b \<longrightarrow> f j = []"
      proof (intro allI impI)
        fix j assume j: "k < j \<and> j < Suc b"
        show "f j = []"
        proof (cases "j = b")
          case True
          with \<open>f b = []\<close> show ?thesis by simp
        next
          case False
          with j have "k < j \<and> j < b" by simp
          with k(4) show ?thesis by blast
        qed
      qed
      moreover have "k < Suc b" using k(2) by simp
      ultimately show ?thesis using k(1,3) by blast
    next
      case False
      then obtain z zs where "f b = z # zs" by (cases "f b") auto
      with prems upt have "f b = y # zs" by simp
      moreover have "\<forall>j. b < j \<and> j < Suc b \<longrightarrow> f j = []" by auto
      ultimately show ?thesis using \<open>a \<le> b\<close> by (intro exI [of _ b] exI [of _ zs]) simp
    qed
  qed
qed

lemma set_run_Seq:
  "set (run (Seq r1 r2) st) = (\<Union>st' \<in> set (run r1 st). set (run r2 st'))"
  by simp

lemma run_plain:
  "plain Q r \<Longrightarrow> (u', g') \<in> set (run r (u, g)) \<Longrightarrow>
   g' = g \<and> (\<exists>v. u = v @ u' \<and> list_all Q v)"
proof (induction r arbitrary: u g u' g')
  case (Lit w)
  then show ?case
    by (auto simp: prefix_def split: if_splits)
next
  case (Rep greedy cls lo hi)
  from run_Rep_mem [OF Rep.prems(2)] obtain k where
    k: "k \<le> length (takeWhile cls u)" "u' = drop k u" "g' = g" by blast
  from take_le_takeWhile [OF k(1)] have "list_all cls (take k u)" by simp
  with Rep.prems(1) have "list_all Q (take k u)"
    by (simp add: list_all_iff)
  moreover have "u = take k u @ u'" using k(2) by simp
  ultimately show ?case using k(3) by blast
next
  case (Seq r1 r2)
  from Seq.prems(2) obtain u1 g1 where
    a: "(u1, g1) \<in> set (run r1 (u, g))" and b: "(u', g') \<in> set (run r2 (u1, g1))"
    by auto
  from Seq.prems(1) have p: "plain Q r1" "plain Q r2" by simp_all
  from Seq.IH(1) [OF p(1) a] obtain v1 where v1: "g1 = g" "u = v1 @ u1" "list_all Q v1" by blast
  from Seq.IH(2) [OF p(2) b] obtain v2 where v2: "g' = g1" "u1 = v2 @ u'" "list_all Q v2" by blast
  have "u = (v1 @ v2) @ u'" "list_all Q (v1 @ v2)"
    using v1 v2 by simp_all
  then show ?case using v1(1) v2(1) by blast
next
  case (Alt r1 r2)
  from Alt.prems(1) have p: "plain Q r1" "plain Q r2" by simp_all
  from Alt.prems(2) have "(u', g') \<in> set (run r1 (u, g)) \<or> (u', g') \<in> set (run r2 (u, g))"
    by simp
  then show ?case
    using Alt.IH(1) [OF p(1)] Alt.IH(2) [OF p(2)] by blast
next
  case (Opt r)
  from Opt.prems(1) have p: "plain Q r" by simp
  from Opt.prems(2) have "(u', g') \<in> set (run r (u, g)) \<or> (u', g') = (u, g)"
    by auto
  then show ?case
  proof
    assume "(u', g') \<in> set (run r (u, g))"
    from Opt.IH [OF p this] show ?thesis .
  next
    assume "(u', g') = (u, g)"
    then have "g' = g" "u = [] @ u'" "list_all Q []" by simp_all
    then show ?thesis by blast
  qed
next
  case (Grp n r)
  then show ?case by simp
next
  case Eol
  then have "g' = g" "u = [] @ u'" "list_all Q []"
    by (auto split: if_splits)
  then show ?case by blast
qed

lemma run_Grp_plain:
  assumes "plain Q r" "(u', g') \<in> set (run (Grp n r) (u, g))"
  shows "\<exists>v. g' = (n, v) # g \<and> u = v @ u' \<and> list_all Q v"
proof -
  from assms(2) obtain g1 where
    a: "(u', g1) \<in> set (run r (u, g))" and b: "g' = (n, take (length u - length u') u) # g1"
    by auto
  from run_plain [OF assms(1) a] obtain v where v: "g1 = g" "u = v @ u'" "list_all Q v" by blast
  then have "take (length u - length u') u = v" by simp
  with b v show ?thesis by blast
qed

subsection \<open>A group between two markers\<close>

lemma run_Lit_then:
  "run (Seq (Lit w) r) (u, g) = (if prefix w u then run r (drop (length w) u, g) else [])"
  by simp

lemma run_greedy_then:
  "run (Seq (Rep True cls lo None) r) (u, g) =
     concat (map (\<lambda>k. run r (drop k u, g)) (rev [lo..<Suc (length (takeWhile cls u))]))"
  by (simp add: Let_def comp_def rev_map del: upt_Suc)

lemma run_lazy_group_then:
  "run (Seq (Grp n (Rep False cls lo None)) r) (u, g) =
     concat (map (\<lambda>k. run r (drop k u, (n, take (length u - length (drop k u)) u) # g))
                 [lo..<Suc (length (takeWhile cls u))])"
  by (simp add: Let_def comp_def del: upt_Suc)

lemma marker_pattern:
  assumes alt_groups: "\<And>v g0 u' g'. (u', g') \<in> set (run ALT (v, g0)) \<Longrightarrow> g' = g0"
      and alt_iff: "\<And>v g0. (run ALT (v, g0) \<noteq> []) = F v"
      and run: "run (Seq (Lit w) (Seq (Rep True is_space 1 None)
                  (Seq (Grp 1 (Rep False cls 1 None)) ALT))) (u, []) = (u', g) # sts"
  shows "\<exists>ws body rest. u = w @ ws @ body @ rest \<and> ws \<noteq> [] \<and> list_all is_space ws \<and>
           body \<noteq> [] \<and> list_all cls body \<and> F rest \<and>
           (\<forall>k. 0 < k \<and> k < length body \<longrightarrow> \<not> F (drop k body @ rest)) \<and> g = [(1, body)]"
proof -
  define u1 where "u1 = drop (length w) u"
  from run have pw: "prefix w u"
    unfolding run_Lit_then by (simp split: if_splits)
  then have u: "u = w @ u1"
    by (auto simp: u1_def prefix_def)
  from run pw have "concat (map (\<lambda>k. run (Seq (Grp 1 (Rep False cls 1 None)) ALT) (drop k u1, []))
                      (rev [1..<Suc (length (takeWhile is_space u1))])) = (u', g) # sts"
    unfolding run_Lit_then run_greedy_then u1_def by simp
  from first_of_rev_upt [OF this] obtain k zs where
    k: "1 \<le> k" "k < Suc (length (takeWhile is_space u1))"
       "run (Seq (Grp 1 (Rep False cls 1 None)) ALT) (drop k u1, []) = (u', g) # zs"
    by blast
  define ws where "ws = take k u1"
  define u2 where "u2 = drop k u1"
  from k(2) have "k \<le> length (takeWhile is_space u1)" by simp
  from take_le_takeWhile [OF this] have ws: "list_all is_space ws" "k \<le> length u1"
    by (simp_all add: ws_def)
  with k(1) have ws_ne: "ws \<noteq> []"
    by (auto simp: ws_def)
  have u1: "u1 = ws @ u2"
    by (simp add: ws_def u2_def)
  from k(3) have "concat (map (\<lambda>l. run ALT (drop l u2, [(1, take (length u2 - length (drop l u2)) u2)]))
                     [1..<Suc (length (takeWhile cls u2))]) = (u', g) # zs"
    unfolding run_lazy_group_then u2_def .
  from first_of_upt [OF this] obtain l zs' where
    l: "1 \<le> l" "l < Suc (length (takeWhile cls u2))"
       "run ALT (drop l u2, [(1, take (length u2 - length (drop l u2)) u2)]) = (u', g) # zs'"
       "\<forall>j. 1 \<le> j \<and> j < l \<longrightarrow>
          run ALT (drop j u2, [(1, take (length u2 - length (drop j u2)) u2)]) = []"
    by blast
  define body where "body = take l u2"
  define rest where "rest = drop l u2"
  from l(2) have "l \<le> length (takeWhile cls u2)" by simp
  from take_le_takeWhile [OF this] have body: "list_all cls body" "l \<le> length u2"
    by (simp_all add: body_def)
  with l(1) have body_ne: "body \<noteq> []"
    by (auto simp: body_def)
  have u2: "u2 = body @ rest"
    by (simp add: body_def rest_def)
  have len: "length body = l"
    using body(2) by (simp add: body_def)
  have tk: "take (length u2 - length (drop l u2)) u2 = body"
    using body(2) by (simp add: body_def)
  have "(u', g) \<in> set (run ALT (rest, [(1, body)]))"
    using l(3) unfolding tk rest_def by simp
  from alt_groups [OF this] have g: "g = [(1, body)]" .
  have "run ALT (rest, [(1, body)]) \<noteq> []"
    using l(3) unfolding tk rest_def by simp
  then have F: "F rest"
    using alt_iff by blast
  have nearest: "\<forall>j. 0 < j \<and> j < length body \<longrightarrow> \<not> F (drop j body @ rest)"
  proof (intro allI impI)
    fix j assume j: "0 < j \<and> j < length body"
    then have "1 \<le> j \<and> j < l" using len by simp
    with l(4) have "run ALT (drop j u2, [(1, take (length u2 - length (drop j u2)) u2)]) = []"
      by blast
    then have "\<not> F (drop j u2)"
      using alt_iff by blast
    moreover have "drop j u2 = drop j body @ rest"
      using j by (simp add: u2)
    ultimately show "\<not> F (drop j body @ rest)" by simp
  qed
  have "u = w @ ws @ body @ rest"
    using u u1 u2 by simp
  with ws_ne ws(1) body_ne body(1) F nearest g show ?thesis
    by blast
qed

subsection \<open>The patterns of the extractor\<close>

lemma concat_map_nonempty:
  "(concat (map f xs) \<noteq> []) = (\<exists>x\<in>set xs. f x \<noteq> [])"
  by (induction xs) auto

lemma space_before:
  assumes k: "k < length (takeWhile is_space v)"
  shows "\<exists>c t. drop k v = c # t \<and> is_space c"
proof -
  have "k < length v"
    using k length_takeWhile_le [of is_space v] by linarith
  then have "drop k v = v ! k # drop (Suc k) v"
    by (simp add: Cons_nth_drop_Suc)
  moreover have "takeWhile is_space v ! k = v ! k"
    using k by (rule takeWhile_nth)
  then have "is_space (v ! k)"
    using k nth_mem [OF k] set_takeWhileD [of "v ! k" is_space v] by simp
  ultimately show ?thesis by blast
qed

lemma space_then:
  assumes H: "\<And>x. (run r (x, g0) \<noteq> []) = H x"
      and first: "\<And>x. H x \<Longrightarrow> \<exists>c t. x = c # t \<and> \<not> is_space c"
  shows "(run (Seq (Rep True is_space 1 None) r) (v, g0) \<noteq> []) =
         (takeWhile is_space v \<noteq> [] \<and> H (dropWhile is_space v))"
proof -
  define n where "n = length (takeWhile is_space v)"
  have dw: "dropWhile is_space v = drop n v"
    by (simp add: n_def dropWhile_eq_drop)
  have "(run (Seq (Rep True is_space 1 None) r) (v, g0) \<noteq> []) =
        (\<exists>k\<in>set (rev [1..<Suc n]). H (drop k v))"
    unfolding run_greedy_then concat_map_nonempty n_def H ..
  also have "\<dots> = (\<exists>k. 1 \<le> k \<and> k \<le> n \<and> H (drop k v))"
    by auto
  also have "\<dots> = (1 \<le> n \<and> H (drop n v))"
  proof
    assume "\<exists>k. 1 \<le> k \<and> k \<le> n \<and> H (drop k v)"
    then obtain k where k: "1 \<le> k" "k \<le> n" "H (drop k v)" by blast
    have "k = n"
    proof (rule ccontr)
      assume "k \<noteq> n"
      with k(2) have "k < length (takeWhile is_space v)" by (simp add: n_def)
      from space_before [OF this] obtain c t where "drop k v = c # t" "is_space c" by blast
      with first [OF k(3)] show False by simp
    qed
    with k show "1 \<le> n \<and> H (drop n v)" by simp
  next
    assume "1 \<le> n \<and> H (drop n v)"
    then show "\<exists>k. 1 \<le> k \<and> k \<le> n \<and> H (drop k v)" by blast
  qed
  also have "\<dots> = (takeWhile is_space v \<noteq> [] \<and> H (dropWhile is_space v))"
    unfolding dw by (auto simp: n_def Suc_le_eq)
  finally show ?thesis .
qed

lemma run_Lit_nonempty: "(run (Lit w) (x, g0) \<noteq> []) = prefix w x"
  by simp

lemma marker_alternatives:
  "(run (Alt (Seq (Rep True is_space 1 None) (Lit (py_str ''using'')))
             (Seq (Rep True is_space 1 None) (Lit (py_str ''on'')))) (v, g0) \<noteq> []) =
   marker_follows v"
proof -
  have a: "\<And>x. prefix (py_str ''using'') x \<Longrightarrow> \<exists>c t. x = c # t \<and> \<not> is_space c"
    by (auto simp: py_str_def prefix_def is_space_def)
  have b: "\<And>x. prefix (py_str ''on'') x \<Longrightarrow> \<exists>c t. x = c # t \<and> \<not> is_space c"
    by (auto simp: py_str_def prefix_def is_space_def)
  have u: "(run (Seq (Rep True is_space 1 None) (Lit (py_str ''using''))) (v, g0) \<noteq> []) =
           (takeWhile is_space v \<noteq> [] \<and> prefix (py_str ''using'') (dropWhile is_space v))"
    by (rule space_then [OF run_Lit_nonempty a])
  have n: "(run (Seq (Rep True is_space 1 None) (Lit (py_str ''on''))) (v, g0) \<noteq> []) =
           (takeWhile is_space v \<noteq> [] \<and> prefix (py_str ''on'') (dropWhile is_space v))"
    by (rule space_then [OF run_Lit_nonempty b])
  have "(run (Alt (Seq (Rep True is_space 1 None) (Lit (py_str ''using'')))
             (Seq (Rep True is_space 1 None) (Lit (py_str ''on'')))) (v, g0) \<noteq> []) =
        (run (Seq (Rep True is_space 1 None) (Lit (py_str ''using''))) (v, g0) \<noteq> [] \<or>
         run (Seq (Rep True is_space 1 None) (Lit (py_str ''on''))) (v, g0) \<noteq> [])"
    by (simp only: run.simps(4) append_is_Nil_conv de_Morgan_conj)
  then show ?thesis
    unfolding u n marker_follows_def by blast
qed

lemma marker_alternatives_groups:
  assumes "(u', g') \<in> set (run (Alt (Seq (Rep True is_space 1 None) (Lit (py_str ''using'')))
             (Seq (Rep True is_space 1 None) (Lit (py_str ''on'')))) (v, g0))"
  shows "g' = g0"
proof -
  have "plain (\<lambda>c. True) (Alt (Seq (Rep True is_space 1 None) (Lit (py_str ''using'')))
             (Seq (Rep True is_space 1 None) (Lit (py_str ''on''))))"
    by (simp add: list_all_iff)
  from run_plain [OF this assms] show ?thesis by simp
qed

lemma recipient_match:
  assumes "re_search recipient_re s = Some g"
  shows "\<exists>pre ws body rest.
           s = pre @ py_str ''to'' @ ws @ body @ rest \<and> ws \<noteq> [] \<and> list_all is_space ws \<and>
           body \<noteq> [] \<and> list_all any_char body \<and> marker_follows rest \<and>
           (\<forall>k. 0 < k \<and> k < length body \<longrightarrow> \<not> marker_follows (drop k body @ rest)) \<and>
           g = [(1, body)] \<and>
           (\<forall>k < length pre. run recipient_re (drop k s, []) = [])"
proof -
  define ALT where "ALT = Alt (Seq (Rep True is_space 1 None) (Lit (py_str ''using'')))
                              (Seq (Rep True is_space 1 None) (Lit (py_str ''on'')))"
  have ag: "\<And>v g0 u' g'. (u', g') \<in> set (run ALT (v, g0)) \<Longrightarrow> g' = g0"
    unfolding ALT_def by (rule marker_alternatives_groups)
  have ai: "\<And>v g0. (run ALT (v, g0) \<noteq> []) = marker_follows v"
    unfolding ALT_def by (rule marker_alternatives)
  from re_search_Some [OF assms] obtain pre u u' sts where
    s: "s = pre @ u" "run recipient_re (u, []) = (u', g) # sts"
       "\<forall>k < length pre. run recipient_re (drop k s, []) = []" by blast
  from s(2) have r: "run (Seq (Lit (py_str ''to'')) (Seq (Rep True is_space 1 None)
                  (Seq (Grp 1 (Rep False any_char 1 None)) ALT))) (u, []) = (u', g) # sts"
    by (simp only: recipient_re_def seqs.simps ALT_def)
  have "\<exists>ws body rest. u = py_str ''to'' @ ws @ body @ rest \<and> ws \<noteq> [] \<and> list_all is_space ws \<and>
           body \<noteq> [] \<and> list_all any_char body \<and> marker_follows rest \<and>
           (\<forall>k. 0 < k \<and> k < length body \<longrightarrow> \<not> marker_follows (drop k body @ rest)) \<and> g = [(1, body)]"
    using ag ai r by (rule marker_pattern)
  then obtain ws body rest where
    "u = py_str ''to'' @ ws @ body @ rest" "ws \<noteq> []" "list_all is_space ws"
    "body \<noteq> []" "list_all any_char body" "marker_follows rest"
    "\<forall>k. 0 < k \<and> k < length body \<longrightarrow> \<not> marker_follows (drop k body @ rest)" "g = [(1, body)]"
    by blast
  with s(1,3) show ?thesis by blast
qed

lemma run_Rep_one_nonempty:
  "(run (Rep True cls 1 None) (x, g0) \<noteq> []) = (\<exists>c t. x = c # t \<and> cls c)"
proof -
  have "(run (Rep True cls 1 None) (x, g0) \<noteq> []) = (takeWhile cls x \<noteq> [])"
    by (auto simp: Let_def Suc_le_eq simp del: upt_Suc)
  also have "\<dots> = (\<exists>c t. x = c # t \<and> cls c)"
    by (cases x) auto
  finally show ?thesis .
qed

lemma run_Eol_nonempty: "(run Eol (x, g0) \<noteq> []) = (x = [] \<or> x = [10])"
  by simp

lemma spaces_then_end:
  "(run (Seq (Rep True is_space 0 None) Eol) (v, g0) \<noteq> []) = (dropWhile is_space v = [])"
proof -
  define n where "n = length (takeWhile is_space v)"
  have "(run (Seq (Rep True is_space 0 None) Eol) (v, g0) \<noteq> []) =
        (\<exists>k\<in>set (rev [0..<Suc n]). run Eol (drop k v, g0) \<noteq> [])"
    unfolding run_greedy_then concat_map_nonempty n_def ..
  also have "\<dots> = (\<exists>k\<in>{0..<Suc n}. drop k v = [] \<or> drop k v = [10])"
    by (simp only: set_rev set_upt run_Eol_nonempty)
  also have "\<dots> = (\<exists>k. k \<le> n \<and> (drop k v = [] \<or> drop k v = [10]))"
    by (simp only: Bex_def atLeast0LessThan lessThan_iff less_Suc_eq_le)
  also have "\<dots> = (dropWhile is_space v = [])"
  proof
    assume "\<exists>k. k \<le> n \<and> (drop k v = [] \<or> drop k v = [10])"
    then obtain k where k: "k \<le> n" "drop k v = [] \<or> drop k v = [10]" by blast
    from k(1) have "k \<le> length (takeWhile is_space v)" by (simp add: n_def)
    from take_le_takeWhile [OF this] have t: "list_all is_space (take k v)" by simp
    have "is_space 10" by (simp add: is_space_def)
    with k(2) have "list_all is_space (drop k v)" by auto
    with t have "list_all is_space v"
      by (metis append_take_drop_id list_all_append)
    then show "dropWhile is_space v = []"
      by (simp add: list_all_iff)
  next
    assume "dropWhile is_space v = []"
    then have "takeWhile is_space v = v"
      by (metis append_Nil2 takeWhile_dropWhile_id)
    then have "n = length v" by (simp only: n_def)
    then have "n \<le> n \<and> (drop n v = [] \<or> drop n v = [10])" by simp
    then show "\<exists>k. k \<le> n \<and> (drop k v = [] \<or> drop k v = [10])" by blast
  qed
  finally show ?thesis .
qed

lemma mask_alternatives:
  "(run (Alt (Seq (Rep True is_space 1 None) (Rep True (one_of ''Xx'') 1 None))
             (Seq (Rep True is_space 0 None) Eol)) (v, g0) \<noteq> []) =
   mask_or_end_follows v"
proof -
  have a: "\<And>x. \<exists>c t. x = c # t \<and> one_of ''Xx'' c \<Longrightarrow> \<exists>c t. x = c # t \<and> \<not> is_space c"
    by (auto simp: one_of_def py_str_def is_space_def)
  have m: "(run (Seq (Rep True is_space 1 None) (Rep True (one_of ''Xx'') 1 None)) (v, g0) \<noteq> []) =
           (takeWhile is_space v \<noteq> [] \<and> (\<exists>c t. dropWhile is_space v = c # t \<and> one_of ''Xx'' c))"
    by (rule space_then [OF run_Rep_one_nonempty a])
  have alt: "(run (Alt (Seq (Rep True is_space 1 None) (Rep True (one_of ''Xx'') 1 None))
             (Seq (Rep True is_space 0 None) Eol)) (v, g0) \<noteq> []) =
        (run (Seq (Rep True is_space 1 None) (Rep True (one_of ''Xx'') 1 None)) (v, g0) \<noteq> [] \<or>
         run (Seq (Rep True is_space 0 None) Eol) (v, g0) \<noteq> [])"
    by (simp only: run.simps(4) append_is_Nil_conv de_Morgan_conj)
  show ?thesis
    unfolding alt m spaces_then_end mask_or_end_follows_def
    by (cases "dropWhile is_space v") (auto simp del: dropWhile_eq_Nil_conv)
qed

lemma mask_alternatives_groups:
  assumes "(u', g') \<in> set (run (Alt (Seq (Rep True is_space 1 None) (Rep True (one_of ''Xx'') 1 None))
             (Seq (Rep True is_space 0 None) Eol)) (v, g0))"
  shows "g' = g0"
proof -
  have "plain (\<lambda>c. True) (Alt (Seq (Rep True is_space 1 None) (Rep True (one_of ''Xx'') 1 None))
             (Seq (Rep True is_space 0 None) Eol))"
    by simp
  from run_plain [OF this assms] show ?thesis by simp
qed

lemma method_match:
  assumes "re_search method_re s = Some g"
  shows "\<exists>pre ws body rest.
           s = pre @ py_str ''using'' @ ws @ body @ rest \<and> ws \<noteq> [] \<and> list_all is_space ws \<and>
           body \<noteq> [] \<and> list_all method_char body \<and> mask_or_end_follows rest \<and>
           (\<forall>k. 0 < k \<and> k < length body \<longrightarrow> \<not> mask_or_end_follows (drop k body @ rest)) \<and>
           g = [(1, body)] \<and>
           (\<forall>k < length pre. run method_re (drop k s, []) = [])"
proof -
  define ALT where "ALT = Alt (Seq (Rep True is_space 1 None) (Rep True (one_of ''Xx'') 1 None))
                              (Seq (Rep True is_space 0 None) Eol)"
  have ag: "\<And>v g0 u' g'. (u', g') \<in> set (run ALT (v, g0)) \<Longrightarrow> g' = g0"
    unfolding ALT_def by (rule mask_alternatives_groups)
  have ai: "\<And>v g0. (run ALT (v, g0) \<noteq> []) = mask_or_end_follows v"
    unfolding ALT_def by (rule mask_alternatives)
  from re_search_Some [OF assms] obtain pre u u' sts where
    s: "s = pre @ u" "run method_re (u, []) = (u', g) # sts"
       "\<forall>k < length pre. run method_re (drop k s, []) = []" by blast
  from s(2) have r: "run (Seq (Lit (py_str ''using'')) (Seq (Rep True is_space 1 None)
                  (Seq (Grp 1 (Rep False method_char 1 None)) ALT))) (u, []) = (u', g) # sts"
    by (simp only: method_re_def seqs.simps ALT_def)
  have "\<exists>ws body rest. u = py_str ''using'' @ ws @ body @ rest \<and> ws \<noteq> [] \<and> list_all is_space ws \<and>
           body \<noteq> [] \<and> list_all method_char body \<and> mask_or_end_follows rest \<and>
           (\<forall>k. 0 < k \<and> k < length body \<longrightarrow> \<not> mask_or_end_follows (drop k body @ rest)) \<and>
           g = [(1, body)]"
    using ag ai r by (rule marker_pattern)
  then obtain ws body rest where
    "u = py_str ''using'' @ ws @ body @ rest" "ws \<noteq> []" "list_all is_space ws"
    "body \<noteq> []" "list_all method_char body" "mask_or_end_follows rest"
    "\<forall>k. 0 < k \<and> k < length body \<longrightarrow> \<not> mask_or_end_follows (drop k body @ rest)" "g = [(1, body)]"
    by blast
  with s(1,3) show ?thesis by blast
qed

lemma amount_match:
  assumes "re_search amount_re s = Some g"
  shows "\<exists>a. g = [(1, a)] \<and> list_all (\<lambda>c. ascii_digit c \<or> c = 44 \<or> c = 46) a"
proof -
  define INNER where "INNER = Seq (Rep True (\<lambda>c. ascii_digit c \<or> one_of '','' c) 1 None)
                      (Opt (Seq (Lit (py_str ''.'')) (Rep True ascii_digit 1 None)))"
  from re_search_Some [OF assms] obtain u u' sts where
    "run amount_re (u, []) = (u', g) # sts" by blast
  then have "(u', g) \<in> set (run amount_re (u, []))" by simp
  then have "(u', g) \<in> set (run (Seq (Lit [8377]) (Seq (Rep True is_space 0 None) (Grp 1 INNER))) (u, []))"
    by (simp only: amount_re_def seqs.simps INNER_def)
  then obtain st1 st2 where
    a: "st1 \<in> set (run (Lit [8377]) (u, []))"
       "st2 \<in> set (run (Rep True is_space 0 None) st1)"
       "(u', g) \<in> set (run (Grp 1 INNER) st2)"
    unfolding set_run_Seq by blast
  from a(1) obtain x1 where st1: "st1 = (x1, [])"
    by (auto split: if_splits)
  from a(2) have "(fst st2, snd st2) \<in> set (run (Rep True is_space 0 None) (x1, []))"
    by (simp add: st1)
  from run_Rep_mem [OF this] have "snd st2 = []" by blast
  then have st2: "st2 = (fst st2, [])"
    by (cases st2) simp
  have p: "plain (\<lambda>c. ascii_digit c \<or> c = 44 \<or> c = 46) INNER"
    by (auto simp: INNER_def one_of_def py_str_def)
  from a(3) st2 have "(u', g) \<in> set (run (Grp 1 INNER) (fst st2, []))"
    by simp
  from run_Grp_plain [OF p this] show ?thesis
    by blast
qed

section \<open>Properties of the extractor\<close>

lemma parse_block_SomeD:
  assumes "parse_block yt i b = Inr (Some t)"
  shows "\<exists>main_text am rm dm a amt r d pm.
    b = Some main_text \<and>
    re_search amount_re (get_text main_text) = Some am \<and>
    re_search recipient_re (get_text main_text) = Some rm \<and>
    re_search date_re (get_text main_text) = Some dm \<and>
    group am 1 = Some a \<and> py_float (replace_comma a) = Inr amt \<and>
    group rm 1 = Some r \<and>
    (case re_search method_re (get_text main_text) of
       None \<Rightarrow> Inr (py_str ''UPI'')
     | Some mm \<Rightarrow> (case group mm 1 of None \<Rightarrow> Inl AttributeError | Some m \<Rightarrow> Inr (strip m)))
      = Inr pm \<and>
    strptime (fmt (group dm 1) @ py_str '' '' @ fmt (group dm 2) @ py_str '' '' @ fmt (group dm 3))
      = Inr d \<and>
    t = \<lparr>amount = amt, recipient = strip r, date = strftime yt d,
         payment_method = pm, tid = py_str ''tx_'' @ decimal i\<rparr>"
  using assms unfolding parse_block_def Let_def
  by (auto split: option.split_asm sum.split_asm py_error.split_asm prod.split_asm)


lemma parse_block_SomeI:
  assumes am: "re_search amount_re (get_text main_text) = Some am"
      and rm: "re_search recipient_re (get_text main_text) = Some rm"
      and dm: "re_search date_re (get_text main_text) = Some dm"
      and a: "group am 1 = Some a"
      and amt: "py_float (replace_comma a) = Inr amt"
      and d: "strptime (fmt (group dm 1) @ py_str '' '' @ fmt (group dm 2) @ py_str '' ''
                        @ fmt (group dm 3)) = Inr d"
  shows "\<exists>t. parse_block yt i (Some main_text) = Inr (Some t)"
proof -
  from recipient_match [OF rm] obtain body where "rm = [(1, body)]" by blast
  then have r: "group rm 1 = Some body" by (simp add: group_def)
  have "\<exists>pm. (case re_search method_re (get_text main_text) of
           None \<Rightarrow> Inr (py_str ''UPI'')
         | Some mm \<Rightarrow> (case group mm 1 of None \<Rightarrow> Inl AttributeError | Some m \<Rightarrow> Inr (strip m)))
          = (Inr pm :: py_error + ustr)"
  proof (cases "re_search method_re (get_text main_text)")
    case None
    then show ?thesis by simp
  next
    case (Some mm)
    from method_match [OF Some] obtain body' where "mm = [(1, body')]" by blast
    then have "group mm 1 = Some body'" by (simp add: group_def)
    with Some show ?thesis by simp
  qed
  then obtain pm where
    "(case re_search method_re (get_text main_text) of
           None \<Rightarrow> Inr (py_str ''UPI'')
         | Some mm \<Rightarrow> (case group mm 1 of None \<Rightarrow> Inl AttributeError | Some m \<Rightarrow> Inr (strip m)))
          = (Inr pm :: py_error + ustr)" by blast
  with am rm dm a amt d r show ?thesis
    unfolding parse_block_def Let_def by simp
qed

lemma parse_blocks_map_filter:
  "parse_blocks yt i blocks acc =
     acc @ List.map_filter (\<lambda>(j, b). appended yt j b) (enumerate i blocks)"
proof (induction blocks arbitrary: i acc)
  case Nil
  then show ?case by (simp add:)
next
  case (Cons b blocks)
  show ?case
  proof (cases "parse_block yt i b")
    case (Inl e)
    then show ?thesis
      by (simp add: Cons.IH appended_def)
  next
    case (Inr res)
    then show ?thesis
      by (cases res) (simp_all add: Cons.IH appended_def)
  qed
qed

lemma py_float_nonneg: "py_float s = Inr a \<Longrightarrow> 0 \<le> a"
  by (auto simp: py_float_def Let_def split: list.splits if_splits)

lemma strptime_valid: "strptime s = Inr d \<Longrightarrow> valid_date d"
  unfolding strptime_def
  by (auto split: list.splits if_splits option.splits sum.splits prod.splits)

lemma strip_idem: "strip (strip s) = strip s"
proof -
  define d where "d = dropWhile is_space s"
  define e where "e = dropWhile is_space (rev d)"
  have s: "strip s = rev e"
    by (simp add: strip_def d_def e_def)
  have "dropWhile is_space (rev e) = rev e"
  proof (cases "e = []")
    case True
    then show ?thesis by simp
  next
    case False
    have "rev d = takeWhile is_space (rev d) @ e"
      by (simp add: e_def)
    with False have "last (rev d) = last e"
      by (metis last_appendR)
    moreover from False have "rev d \<noteq> []"
      by (auto simp: e_def)
    then have "d \<noteq> []" by simp
    then have "last (rev d) = hd d" "\<not> is_space (hd d)"
      using hd_dropWhile [of is_space s] by (simp_all add: last_rev d_def)
    ultimately have "\<not> is_space (hd (rev e))"
      using False by (simp add: hd_rev)
    with False show ?thesis
      by (cases "rev e") auto
  qed
  moreover have "dropWhile is_space e = e"
    by (simp add: e_def)
  ultimately show ?thesis
    unfolding s by (simp add: strip_def)
qed

subsection \<open>The text of a date\<close>

lemma decimal_1: "n < 10 \<Longrightarrow> decimal n = [48 + n]"
  by (simp add: decimal.simps)

lemma decimal_2: "10 \<le> n \<Longrightarrow> n < 100 \<Longrightarrow> decimal n = [48 + n div 10, 48 + n mod 10]"
  by (subst decimal.simps) (simp add: decimal_1 less_mult_imp_div_less)

lemma decimal_3:
  "100 \<le> n \<Longrightarrow> n < 1000 \<Longrightarrow> decimal n = [48 + n div 100, 48 + n div 10 mod 10, 48 + n mod 10]"
proof -
  assume a: "100 \<le> n" "n < 1000"
  then have "10 \<le> n div 10" "n div 10 < 100" by arith+
  from decimal_2 [OF this] have "decimal (n div 10) = [48 + n div 10 div 10, 48 + n div 10 mod 10]" .
  moreover have "n div 10 div 10 = n div 100" by (simp add: div_mult2_eq [symmetric])
  ultimately show ?thesis using a by (subst decimal.simps) simp
qed

lemma decimal_4:
  "1000 \<le> n \<Longrightarrow> n < 10000 \<Longrightarrow>
   decimal n = [48 + n div 1000, 48 + n div 100 mod 10, 48 + n div 10 mod 10, 48 + n mod 10]"
proof -
  assume a: "1000 \<le> n" "n < 10000"
  then have "100 \<le> n div 10" "n div 10 < 1000" by arith+
  from decimal_3 [OF this]
  have "decimal (n div 10) = [48 + n div 10 div 100, 48 + n div 10 div 10 mod 10, 48 + n div 10 mod 10]" .
  moreover have "n div 10 div 100 = n div 1000" "n div 10 div 10 = n div 100"
    by (simp_all add: div_mult2_eq [symmetric])
  ultimately show ?thesis using a by (subst decimal.simps) simp
qed

lemma zfill_2: "n < 100 \<Longrightarrow> zfill 2 (decimal n) = [48 + n div 10, 48 + n mod 10]"
  by (cases "n < 10") (simp_all add: zfill_def decimal_1 decimal_2)

lemma zfill_4:
  assumes "n < 10000"
  shows "zfill 4 (decimal n) = [48 + n div 1000, 48 + n div 100 mod 10, 48 + n div 10 mod 10, 48 + n mod 10]"
proof -
  consider "n < 10" | "10 \<le> n \<and> n < 100" | "100 \<le> n \<and> n < 1000" | "1000 \<le> n \<and> n < 10000"
    using assms by linarith
  then show ?thesis
  proof cases
    case 1
    then show ?thesis by (simp add: zfill_def decimal_1 numeral_3_eq_3)
  next
    case 2
    then have "n div 1000 = 0" "n div 100 = 0" "n div 10 < 10" by arith+
    with 2 show ?thesis by (simp add: zfill_def decimal_2 numeral_2_eq_2)
  next
    case 3
    then have "n div 1000 = 0" "n div 100 < 10" by arith+
    with 3 show ?thesis by (simp add: zfill_def decimal_3)
  next
    case 4
    then show ?thesis by (simp add: zfill_def decimal_4)
  qed
qed

lemma digits_value_2: "n < 100 \<Longrightarrow> digits_value [48 + n div 10, 48 + n mod 10] = n"
  by (simp add: digits_value_def)

lemma digits_value_4:
  "digits_value [48 + n div 1000, 48 + n div 100 mod 10, 48 + n div 10 mod 10, 48 + n mod 10] = n"
proof -
  have a: "10 * (n div 1000) + n div 100 mod 10 = n div 100"
    using mult_div_mod_eq [of 10 "n div 100"] by (simp add: div_mult2_eq [symmetric])
  have b: "10 * (n div 100) + n div 10 mod 10 = n div 10"
    using mult_div_mod_eq [of 10 "n div 10"] by (simp add: div_mult2_eq [symmetric])
  have c: "10 * (n div 10) + n mod 10 = n"
    by simp
  have "digits_value [48 + n div 1000, 48 + n div 100 mod 10, 48 + n div 10 mod 10, 48 + n mod 10]
        = 10 * (10 * (10 * (n div 1000) + n div 100 mod 10) + n div 10 mod 10) + n mod 10"
    by (simp add: digits_value_def)
  also have "\<dots> = n"
    by (simp only: a b c)
  finally show ?thesis .
qed

lemma days_in_month_le: "days_in_month y m \<le> 31"
  by (simp add: days_in_month_def)

lemma iso_date_of_digits:
  assumes v: "valid_date (y, m, d)"
  shows "iso_date ([48 + y div 1000, 48 + y div 100 mod 10, 48 + y div 10 mod 10, 48 + y mod 10]
                   @ py_str ''-'' @ zfill 2 (decimal m) @ py_str ''-'' @ zfill 2 (decimal d))"
proof -
  from v have y: "y < 10000" and m: "m < 100" and d: "d < 100"
    using days_in_month_le [of y m] by (auto simp: valid_date_def)
  have dg: "\<And>k. k < 10 \<Longrightarrow> ascii_digit (48 + k)"
    by (simp add: ascii_digit_def)
  have "y div 1000 < 10" "m div 10 < 10" "d div 10 < 10"
    using y m d by arith+
  then show ?thesis
    using v digits_value_4 [of y] digits_value_2 [OF m] digits_value_2 [OF d]
    by (simp add: iso_date_def zfill_2 [OF m] zfill_2 [OF d] py_str_def dg)
qed

lemma iso_date_padded:
  assumes "valid_date (y, m, d)"
  shows "iso_date (strftime year_padded (y, m, d))"
proof -
  from assms have "y < 10000" by (simp add: valid_date_def)
  from zfill_4 [OF this] iso_date_of_digits [OF assms] show ?thesis
    by (simp add: strftime_def year_padded_def)
qed

lemma iso_date_plain:
  assumes "valid_date (y, m, d)" "1000 \<le> y"
  shows "iso_date (strftime year_plain (y, m, d))"
proof -
  from assms have "y < 10000" by (simp add: valid_date_def)
  from decimal_4 [OF assms(2) this] iso_date_of_digits [OF assms(1)] show ?thesis
    by (simp add: strftime_def year_plain_def)
qed

subsection \<open>More sentences\<close>

lemma get_text_single: "strip s = s \<Longrightarrow> s \<noteq> [] \<Longrightarrow> get_text [s] = s"
  by (simp add: get_text_def)

lemma block_zero:
  assumes "year_text 999 = y"
  shows "parse_block year_text 0 (Some [sentence_zero]) =
         Inr (Some \<lparr>amount = 0, recipient = [], date = y @ py_str ''-01-01'',
                     payment_method = py_str ''UPI'', tid = py_str ''tx_0''\<rparr>)"
proof -
  have "get_text [sentence_zero] = sentence_zero"
    by (simp add: get_text_def sentence_zero_def strip_def py_str_def is_space_def)
  then show ?thesis
    unfolding parse_block_def option.case
    by (simp add: assms sentence_zero_def py_str_def class_eval re_eval date_eval float_eval)
qed

text \<open>
  C1. Every record has a positive amount, a date in the fixed-width form and a recipient
  that is not empty. The sentence \<open>sentence_zero\<close>, which ends in \<open>0 to   on 1 Jan 0999\<close>, gives a record
  with the amount 0 and the empty recipient: the amount pattern takes any digits, and
  the three blanks before \<open>on\<close> leave one blank for the group, which \<open>strip\<close> empties.
  Its year is printed as \<open>999\<close> where the C library does not pad.
\<close>

theorem zero_amount_and_empty_recipient:
  "parse_html_content year_plain [Some [sentence_zero]] =
     [\<lparr>amount = 0, recipient = [], date = py_str ''999-01-01'',
       payment_method = py_str ''UPI'', tid = py_str ''tx_0''\<rparr>] \<and>
   parse_html_content year_padded [Some [sentence_zero]] =
     [\<lparr>amount = 0, recipient = [], date = py_str ''0999-01-01'',
       payment_method = py_str ''UPI'', tid = py_str ''tx_0''\<rparr>]"
proof -
  have "year_plain 999 = py_str ''999''" "year_padded 999 = py_str ''0999''"
    by (simp_all add: year_plain_def year_padded_def zfill_def decimal.simps py_str_def)
  then show ?thesis
    using block_zero [of year_plain "py_str ''999''"] block_zero [of year_padded "py_str ''0999''"]
    by (simp add: parse_html_content_def py_str_def)
qed


lemma get_text_commas: "get_text [sentence_commas] = sentence_commas"
  by (simp add: get_text_def sentence_commas_def strip_def py_str_def is_space_def)

lemma matches_commas:
  "re_search amount_re sentence_commas = Some [(1, py_str '',,,'')]"
  "re_search recipient_re sentence_commas = Some [(1, py_str ''Bob'')]"
  "re_search date_re sentence_commas =
     Some [(3, py_str ''2024''), (2, py_str ''Jan''), (1, py_str ''1'')]"
  by (simp_all add: sentence_commas_def py_str_def class_eval re_eval)

lemma strptime_1_Jan_2024: "strptime (py_str ''1 Jan 2024'') = Inr (2024, 1, 1)"
  by (simp add: py_str_def class_eval re_eval date_eval)

lemma float_of_commas: "py_float (replace_comma (py_str '',,,'')) = Inl ValueError"
  by (simp add: py_str_def class_eval float_eval)

lemma block_commas: "parse_block year_text 0 (Some [sentence_commas]) = Inl ValueError"
  unfolding parse_block_def option.case get_text_commas
  by (simp add: sentence_commas_def py_str_def class_eval re_eval date_eval float_eval)



subsection \<open>The records of a document\<close>

lemma in_parse_html_content:
  assumes "t \<in> set (parse_html_content yt blocks)"
  shows "\<exists>i b. b \<in> set blocks \<and> parse_block yt i b = Inr (Some t)"
proof -
  from assms have "t \<in> set (List.map_filter (\<lambda>(j, b). appended yt j b) (enumerate 0 blocks))"
    by (simp add: parse_html_content_def parse_blocks_map_filter)
  then obtain i b where ib: "(i, b) \<in> set (enumerate 0 blocks)" "appended yt i b = Some t"
    by (auto simp: List.map_filter_def)
  from ib(1) have "b \<in> set blocks"
    by (auto simp: in_set_enumerate_eq)
  moreover from ib(2) have "parse_block yt i b = Inr (Some t)"
    by (auto simp: appended_def split: sum.splits option.splits)
  ultimately show ?thesis by blast
qed

lemma float_argument_chars:
  assumes "re_search amount_re s = Some am" "group am 1 = Some a"
  shows "list_all (\<lambda>c. ascii_digit c \<or> c = 46) (replace_comma a)"
proof -
  from amount_match [OF assms(1)] obtain a' where
    "am = [(1, a')]" "list_all (\<lambda>c. ascii_digit c \<or> c = 44 \<or> c = 46) a'" by blast
  with assms(2) have "list_all (\<lambda>c. ascii_digit c \<or> c = 44 \<or> c = 46) a"
    by (simp add: group_def)
  then show ?thesis
    by (auto simp: replace_comma_def list_all_iff)
qed

text \<open>
  C1, amended. Every record has an amount that is not negative and is what \<open>float\<close>
  returned for the amount text of its block, the commas removed: an amount text that
  \<open>float\<close> rejects gives no record. Its recipient has no white space at either end. Its
  date is the \<open>strftime\<close> text of a day of the calendar, and that text is the fixed-width
  form \<open>YYYY-MM-DD\<close> unless the year is below 1000 and printed without padding.
\<close>

theorem extracted_records:
  assumes "t \<in> set (parse_html_content year_text blocks)"
      and "year_text = year_plain \<or> year_text = year_padded"
  shows "0 \<le> amount t \<and>
         (\<exists>main_text am a. Some main_text \<in> set blocks \<and>
             re_search amount_re (get_text main_text) = Some am \<and> group am 1 = Some a \<and>
             py_float (replace_comma a) = Inr (amount t)) \<and>
         strip (recipient t) = recipient t \<and>
         (\<exists>y m d. valid_date (y, m, d) \<and> date t = strftime year_text (y, m, d) \<and>
             (iso_date (date t) \<or> (year_text = year_plain \<and> y < 1000)))"
proof -
  from in_parse_html_content [OF assms(1)] obtain i b where
    b: "b \<in> set blocks" "parse_block year_text i b = Inr (Some t)" by blast
  from parse_block_SomeD [OF b(2)] obtain main_text am a amt r d pm where
    p: "b = Some main_text" "re_search amount_re (get_text main_text) = Some am"
       "group am 1 = Some a" "py_float (replace_comma a) = Inr amt"
       "strptime (fmt (group (the (re_search date_re (get_text main_text))) 1) @ py_str '' ''
          @ fmt (group (the (re_search date_re (get_text main_text))) 2) @ py_str '' ''
          @ fmt (group (the (re_search date_re (get_text main_text))) 3)) = Inr d"
       "t = \<lparr>amount = amt, recipient = strip r, date = strftime year_text d,
             payment_method = pm, tid = py_str ''tx_'' @ decimal i\<rparr>"
    by force
  from p(6) have t: "amount t = amt" "recipient t = strip r" "date t = strftime year_text d"
    by simp_all
  have 1: "0 \<le> amount t"
    using py_float_nonneg [OF p(4)] t(1) by simp
  have 2: "\<exists>main_text am a. Some main_text \<in> set blocks \<and>
             re_search amount_re (get_text main_text) = Some am \<and> group am 1 = Some a \<and>
             py_float (replace_comma a) = Inr (amount t)"
    using b(1) p(1,2,3,4) t(1) by blast
  have 3: "strip (recipient t) = recipient t"
    by (simp add: t(2) strip_idem)
  obtain y m dd where d: "d = (y, m, dd)"
    by (cases d) auto
  from strptime_valid [OF p(5)] have v: "valid_date (y, m, dd)"
    by (simp add: d)
  have "iso_date (date t) \<or> (year_text = year_plain \<and> y < 1000)"
  proof (cases "year_text = year_padded")
    case True
    with iso_date_padded [OF v] show ?thesis
      by (simp add: t(3) d)
  next
    case False
    with assms(2) have yp: "year_text = year_plain" by simp
    show ?thesis
    proof (cases "y < 1000")
      case True
      with yp show ?thesis by simp
    next
      case False
      then have "1000 \<le> y" by simp
      from iso_date_plain [OF v this] show ?thesis
        by (simp add: t(3) d yp)
    qed
  qed
  with v have 4: "\<exists>y m d. valid_date (y, m, d) \<and> date t = strftime year_text (y, m, d) \<and>
             (iso_date (date t) \<or> (year_text = year_plain \<and> y < 1000))"
    using t(3) d by blast
  from 1 2 3 4 show ?thesis by blast
qed

theorem extracted_records_witness:
  "record1 \<in> set (parse_html_content year_plain document3) \<and>
   (year_plain = year_plain \<or> year_plain = year_padded) \<and>
   0 \<le> amount record1 \<and> strip (recipient record1) = recipient record1"
proof -
  have a: "record1 \<in> set (parse_html_content year_plain document3)"
    by (simp add: parse_document3 year_2024)
  have b: "year_plain = year_plain \<or> year_plain = year_padded"
    by simp
  from extracted_records [OF a b] a b show ?thesis
    by blast
qed

text \<open>
  C2. A block contributes a record if and only if the amount, recipient and date patterns
  all match and the date triple is a day of the calendar. In \<open>sentence_commas\<close>, which
  reads \<open>You paid\<close>, the rupee sign and \<open>,,, to Bob using UPI on 1 Jan 2024\<close>, the
  three patterns match and 1 Jan 2024 is a day of the calendar, and the block contributes
  nothing: the amount group is \<open>,,,\<close>, nothing is left of it once the commas are removed,
  \<open>float\<close> raises \<open>ValueError\<close> and the loop goes on to the next block.
\<close>

theorem commas_only_amount:
  "re_search amount_re (get_text [sentence_commas]) = Some [(1, py_str '',,,'')] \<and>
   re_search recipient_re (get_text [sentence_commas]) = Some [(1, py_str ''Bob'')] \<and>
   re_search date_re (get_text [sentence_commas]) =
     Some [(3, py_str ''2024''), (2, py_str ''Jan''), (1, py_str ''1'')] \<and>
   strptime (py_str ''1 Jan 2024'') = Inr (2024, 1, 1) \<and>
   py_float (replace_comma (py_str '',,,'')) = Inl ValueError \<and>
   appended year_plain 0 (Some [sentence_commas]) = None \<and>
   parse_html_content year_plain [Some [sentence_commas]] = [] \<and>
   parse_html_content year_padded [Some [sentence_commas]] = []"
  unfolding get_text_commas
  by (simp add: matches_commas strptime_1_Jan_2024 float_of_commas appended_def
                parse_html_content_def block_commas)

text \<open>
  C2, amended. The call raises exactly when the parser calls before the loop raise, and
  then what they raise; otherwise it returns a list, the loop catching what its body
  raises. The records of a document are what its blocks contribute one by one, in their
  order: a block contributes one record or none, whatever the other blocks hold. A block
  contributes a record if and only if it has the text element, the amount, recipient and date
  patterns all match its text, \<open>float\<close> accepts the amount text without its commas (the
  one call of the body that can raise; the amount group always holds a text, see
  \<open>amount_match\<close>), and \<open>strptime\<close> builds a day of the calendar from the three date
  groups.
\<close>

theorem block_contribution:
  "parse_html_content_call find_blocks year_text html_content =
     (case find_blocks html_content of
        Inl e \<Rightarrow> Inl e
      | Inr blocks \<Rightarrow>
          Inr (List.map_filter (\<lambda>(i, b). appended year_text i b) (enumerate 0 blocks))) \<and>
   isl (parse_html_content_call find_blocks year_text html_content) =
     isl (find_blocks html_content) \<and>
   parse_html_content year_text blocks =
     List.map_filter (\<lambda>(i, b). appended year_text i b) (enumerate 0 blocks) \<and>
   (appended year_text i b \<noteq> None) =
     (\<exists>main_text am rm dm a amt d.
        b = Some main_text \<and>
        re_search amount_re (get_text main_text) = Some am \<and>
        re_search recipient_re (get_text main_text) = Some rm \<and>
        re_search date_re (get_text main_text) = Some dm \<and>
        group am 1 = Some a \<and> py_float (replace_comma a) = Inr amt \<and>
        strptime (fmt (group dm 1) @ py_str '' '' @ fmt (group dm 2) @ py_str '' ''
                  @ fmt (group dm 3)) = Inr d)"
proof -
  have m: "parse_html_content year_text bs =
     List.map_filter (\<lambda>(i, b). appended year_text i b) (enumerate 0 bs)" for bs
    by (simp add: parse_html_content_def parse_blocks_map_filter)
  have c: "parse_html_content_call find_blocks year_text html_content =
     (case find_blocks html_content of
        Inl e \<Rightarrow> Inl e
      | Inr blocks \<Rightarrow>
          Inr (List.map_filter (\<lambda>(i, b). appended year_text i b) (enumerate 0 blocks)))"
    by (simp add: parse_html_content_call_def m split: sum.split)
  have r: "isl (parse_html_content_call find_blocks year_text html_content) =
     isl (find_blocks html_content)"
    by (simp add: parse_html_content_call_def split: sum.split)
  have e: "(appended year_text i b \<noteq> None) =
     (\<exists>main_text am rm dm a amt d.
        b = Some main_text \<and>
        re_search amount_re (get_text main_text) = Some am \<and>
        re_search recipient_re (get_text main_text) = Some rm \<and>
        re_search date_re (get_text main_text) = Some dm \<and>
        group am 1 = Some a \<and> py_float (replace_comma a) = Inr amt \<and>
        strptime (fmt (group dm 1) @ py_str '' '' @ fmt (group dm 2) @ py_str '' ''
                  @ fmt (group dm 3)) = Inr d)" (is "?L = ?R")
  proof
    assume ?L
    then obtain t where "parse_block year_text i b = Inr (Some t)"
      by (auto simp: appended_def split: sum.splits option.splits)
    from parse_block_SomeD [OF this] show ?R by blast
  next
    assume ?R
    then obtain main_text am rm dm a amt d where
      r: "b = Some main_text"
         "re_search amount_re (get_text main_text) = Some am"
         "re_search recipient_re (get_text main_text) = Some rm"
         "re_search date_re (get_text main_text) = Some dm"
         "group am 1 = Some a" "py_float (replace_comma a) = Inr amt"
         "strptime (fmt (group dm 1) @ py_str '' '' @ fmt (group dm 2) @ py_str '' ''
                  @ fmt (group dm 3)) = Inr d" by blast
    from parse_block_SomeI [OF r(2-7), of year_text i] r(1) show ?L
      by (auto simp: appended_def)
  qed
  from c r m [of blocks] e show ?thesis
    by (simp only: simp_thms)
qed

theorem block_contribution_witness:
  "parse_html_content_call (\<lambda>html. Inr document3 :: unit + block list) year_plain [] =
     Inr [record1, record2, record3] \<and>
   \<not> isl (parse_html_content_call (\<lambda>html. Inr document3 :: unit + block list) year_plain []) \<and>
   parse_html_content year_plain document3 =
     List.map_filter (\<lambda>(i, b). appended year_plain i b) (enumerate 0 document3) \<and>
   appended year_plain 0 (Some [in_markup sentence1]) \<noteq> None \<and>
   (\<exists>main_text am rm dm a amt d.
        Some [in_markup sentence1] = Some main_text \<and>
        re_search amount_re (get_text main_text) = Some am \<and>
        re_search recipient_re (get_text main_text) = Some rm \<and>
        re_search date_re (get_text main_text) = Some dm \<and>
        group am 1 = Some a \<and> py_float (replace_comma a) = Inr amt \<and>
        strptime (fmt (group dm 1) @ py_str '' '' @ fmt (group dm 2) @ py_str '' ''
                  @ fmt (group dm 3)) = Inr d)"
proof -
  have a: "appended year_plain 0 (Some [in_markup sentence1]) \<noteq> None"
    by (simp add: appended_def block1 year_2024)
  have d: "parse_html_content year_plain document3 = [record1, record2, record3]"
    by (simp add: parse_document3 year_2024)
  note b = block_contribution [of "\<lambda>html. Inr document3 :: unit + block list" year_plain "[]"
             document3 0 "Some [in_markup sentence1]"]
  from b have "parse_html_content_call (\<lambda>html. Inr document3 :: unit + block list) year_plain [] =
     Inr (parse_html_content year_plain document3)"
    by simp
  with d have c: "parse_html_content_call (\<lambda>html. Inr document3 :: unit + block list) year_plain [] =
     Inr [record1, record2, record3]"
    by simp
  from b have i: "\<not> isl (parse_html_content_call (\<lambda>html. Inr document3 :: unit + block list)
                      year_plain [])"
    by simp
  from a b c i show ?thesis
    by blast
qed

text \<open>An exception of the parser leaves the method as it is.\<close>

lemma parser_error_leaves_the_method:
  "parse_html_content_call (\<lambda>html. Inl e) year_text html_content = Inl e"
  by (simp add: parse_html_content_call_def)







end
